theory Spec2Isabelle
  imports Main "HOL-Library.Word" "HOL-Library.Multiset"
begin

section \<open>Go values: byte slices, errors, slices over a store of backing arrays\<close>

text \<open>
  A \<^verbatim>\<open>[]byte\<close> that is only read, appended to a literal or re-sliced is modelled by
  its contents; \<open>None\<close> is the nil slice, which Go distinguishes from an empty one
  (\<^verbatim>\<open>MapAdapter.Save\<close> tests \<^verbatim>\<open>data == nil\<close>).
\<close>

type_synonym byte = "8 word"
type_synonym bytes = "byte list option"

definition elems :: "'a list option \<Rightarrow> 'a list" where
  "elems b = (case b of None \<Rightarrow> [] | Some xs \<Rightarrow> xs)"

text \<open>
  Go errors: \<^verbatim>\<open>fmt.Errorf(msg)\<close> and \<^verbatim>\<open>errors.New(msg)\<close> give \<open>Err msg\<close>;
  \<^verbatim>\<open>fmt.Errorf\<close> with the verb \<^verbatim>\<open>%w\<close> gives \<open>ErrWrap before err after\<close>, which
  wraps \<open>err\<close> and whose message is the message of \<open>err\<close> between the two texts.
\<close>

datatype error = Err string | ErrWrap string error string

fun Error :: "error \<Rightarrow> string" where
  "Error (Err m) = m"
| "Error (ErrWrap p e q) = p @ Error e @ q"

fun Unwrap :: "error \<Rightarrow> error option" where
  "Unwrap (Err m) = None"
| "Unwrap (ErrWrap p e q) = Some e"

text \<open>
  A slice header: the backing array (its address in the store), the offset of the first
  element, the length and the capacity. The store is the list of all backing arrays
  allocated so far; an allocation takes the next address, \<open>length st\<close>.
\<close>

record slice =
  s_ptr :: nat
  s_off :: nat
  s_len :: nat
  s_cap :: nat

type_synonym 'a store = "'a list list"

text \<open>The zero-length, zero-capacity slice: \<^verbatim>\<open>[]T{}\<close>, \<^verbatim>\<open>make([]T, 0)\<close> and the nil slice
  of a type whose slices the code never compares with nil.\<close>

definition empty_slice :: slice where
  "empty_slice = \<lparr>s_ptr = 0, s_off = 0, s_len = 0, s_cap = 0\<rparr>"

definition slice_view :: "'a store \<Rightarrow> slice \<Rightarrow> 'a list" where
  "slice_view st s = take (s_len s) (drop (s_off s) (st ! s_ptr s))"

definition slice_ok :: "'a store \<Rightarrow> slice \<Rightarrow> bool" where
  "slice_ok st s =
     (s_len s \<le> s_cap s \<and>
      (s_cap s = 0 \<or> (s_ptr s < length st \<and> s_off s + s_cap s \<le> length (st ! s_ptr s))))"

text \<open>The Go runtime as far as slices need it: the zero value of the element type and
  the growth policy of \<^verbatim>\<open>append\<close> (old capacity and needed length to new capacity; the
  runtime never allocates less than needed).\<close>

record 'a runtime =
  rt_zero :: 'a
  rt_grow :: "nat \<Rightarrow> nat \<Rightarrow> nat"

definition write_at :: "'a list \<Rightarrow> nat \<Rightarrow> 'a list \<Rightarrow> 'a list" where
  "write_at arr k xs = take k arr @ xs @ drop (k + length xs) arr"

text \<open>\<^verbatim>\<open>append(s, xs...)\<close>: in place when the capacity suffices, else into a new array.\<close>

definition go_append :: "'a runtime \<Rightarrow> slice \<Rightarrow> 'a list \<Rightarrow> 'a store \<Rightarrow> slice \<times> 'a store" where
  "go_append rt s xs st =
     (let n = s_len s + length xs in
      if n \<le> s_cap s then
        (s\<lparr>s_len := n\<rparr>,
         if xs = [] then st
         else st[s_ptr s := write_at (st ! s_ptr s) (s_off s + s_len s) xs])
      else
        (let c = max n (rt_grow rt (s_cap s) n) in
         (\<lparr>s_ptr = length st, s_off = 0, s_len = n, s_cap = c\<rparr>,
          st @ [slice_view st s @ xs @ replicate (c - n) (rt_zero rt)])))"

text \<open>\<^verbatim>\<open>make([]T, n)\<close> and \<^verbatim>\<open>copy(dst, src)\<close>.\<close>

definition go_make :: "'a runtime \<Rightarrow> nat \<Rightarrow> 'a store \<Rightarrow> slice \<times> 'a store" where
  "go_make rt n st =
     (\<lparr>s_ptr = length st, s_off = 0, s_len = n, s_cap = n\<rparr>, st @ [replicate n (rt_zero rt)])"

definition go_copy :: "slice \<Rightarrow> slice \<Rightarrow> 'a store \<Rightarrow> 'a store" where
  "go_copy dst src st =
     (let k = min (s_len dst) (s_len src) in
      if k = 0 then st
      else st[s_ptr dst := write_at (st ! s_ptr dst) (s_off dst) (take k (slice_view st src))])"

section \<open>Images (package image)\<close>

record ImageMetadata =
  ID :: string
  Width :: int
  Height :: int
  CapturedAt :: int
  Rating :: int
  Filters :: slice
  Format :: string
  Description :: string

text \<open>The zero value of the struct. \<open>CapturedAt\<close> is an instant on a linear time line
  whose origin is the zero \<^verbatim>\<open>time.Time\<close>; \<^verbatim>\<open>Before\<close> and \<^verbatim>\<open>After\<close> are \<open><\<close> and \<open>>\<close>.\<close>

definition zero_metadata :: ImageMetadata where
  "zero_metadata = \<lparr>ID = [], Width = 0, Height = 0, CapturedAt = 0, Rating = 0,
     Filters = empty_slice, Format = [], Description = []\<rparr>"

text \<open>The two implementations of the interface \<^verbatim>\<open>Image\<close>: a \<^verbatim>\<open>*BasicImage\<close> with its
  id, data and metadata, and a \<^verbatim>\<open>*FilterDecorator\<close> with the wrapped image and its filter.\<close>

datatype Image = BasicImage string bytes ImageMetadata | FilterDecorator Image string

definition NewBasicImage :: "string \<Rightarrow> bytes \<Rightarrow> ImageMetadata \<Rightarrow> Image" where
  "NewBasicImage id' data metadata = BasicImage id' data (metadata\<lparr>ID := id'\<rparr>)"

text \<open>A panic carries its message. The argument of \<^verbatim>\<open>NewFilterDecorator\<close> is an interface
  value, \<open>None\<close> when nil.\<close>

definition NewFilterDecorator :: "Image option \<Rightarrow> string \<Rightarrow> string + Image" where
  "NewFilterDecorator img filter' =
     (case img of
        None \<Rightarrow> Inl ''image cannot be nil''
      | Some w \<Rightarrow> if filter' = [] then Inl ''filter cannot be empty''
                  else Inr (FilterDecorator w filter'))"

fun Image_ID :: "Image \<Rightarrow> string" where
  "Image_ID (BasicImage i d m) = i"
| "Image_ID (FilterDecorator w f) = Image_ID w"

fun Image_Data :: "Image \<Rightarrow> bytes" where
  "Image_Data (BasicImage i d m) = d"
| "Image_Data (FilterDecorator w f) = Image_Data w"

text \<open>\<^verbatim>\<open>Metadata()\<close> returns the struct by value: the \<open>Filters\<close> header is copied, the
  backing array is not. The decorator appends its filter to what the wrapped image
  returned, so the call acts on the store of string arrays.\<close>

fun Image_Metadata :: "string runtime \<Rightarrow> Image \<Rightarrow> string store \<Rightarrow> ImageMetadata \<times> string store" where
  "Image_Metadata rt (BasicImage i d m) st = (m, st)"
| "Image_Metadata rt (FilterDecorator w f) st =
     (let (meta, st1) = Image_Metadata rt w st;
          (fs, st2) = go_append rt (Filters meta) [f] st1
      in (meta\<lparr>Filters := fs\<rparr>, st2))"

text \<open>The chain behind an image: the \<^verbatim>\<open>*BasicImage\<close> at its core, and the filters of
  its decorators, innermost first.\<close>

fun base_of :: "Image \<Rightarrow> Image" where
  "base_of (BasicImage i d m) = BasicImage i d m"
| "base_of (FilterDecorator w f) = base_of w"

fun base_metadata :: "Image \<Rightarrow> ImageMetadata" where
  "base_metadata (BasicImage i d m) = m"
| "base_metadata (FilterDecorator w f) = base_metadata w"

fun filters_of :: "Image \<Rightarrow> string list" where
  "filters_of (BasicImage i d m) = []"
| "filters_of (FilterDecorator w f) = filters_of w @ [f]"

text \<open>What a caller sees in \<^verbatim>\<open>img.Metadata().Filters\<close> when the call returns.\<close>

definition read_history :: "string runtime \<Rightarrow> Image \<Rightarrow> string store \<Rightarrow> string list" where
  "read_history rt img st =
     (let (meta, st') = Image_Metadata rt img st in slice_view st' (Filters meta))"

section \<open>The photo factory (package camera)\<close>

text \<open>What \<^verbatim>\<open>CreatePhoto\<close> takes from outside in one call: the bytes \<^verbatim>\<open>rand.Read\<close>
  delivers, the number behind \<^verbatim>\<open>rand.Intn\<close>, and the two readings of the clock
  (the capture instant, and the Unix nanoseconds that go into the id).\<close>

record env =
  rand_byte :: "nat \<Rightarrow> byte"
  rand_source :: nat
  now_CapturedAt :: int
  now_UnixNano :: int

definition defaultWidth :: int where "defaultWidth = 1920"
definition defaultHeight :: int where "defaultHeight = 1080"
definition defaultDataSize :: nat where "defaultDataSize = 1024"
definition minRating :: int where "minRating = 1"
definition maxRating :: int where "maxRating = 5"
definition defaultFormat :: string where "defaultFormat = ''JPEG''"
definition PhotoTypeLandscape :: string where "PhotoTypeLandscape = ''landscape''"
definition PhotoTypePortrait :: string where "PhotoTypePortrait = ''portrait''"

text \<open>\<^verbatim>\<open>rand.Intn(n)\<close> is a number in \<open>[0, n)\<close>.\<close>

definition rand_Intn :: "env \<Rightarrow> int \<Rightarrow> int" where
  "rand_Intn e n = int (rand_source e) mod n"

text \<open>The verb \<^verbatim>\<open>%d\<close> of \<^verbatim>\<open>fmt.Sprintf\<close>.\<close>

function show_nat :: "nat \<Rightarrow> string" where
  "show_nat n =
     (if n < 10 then [''0123456789'' ! n]
      else show_nat (n div 10) @ [''0123456789'' ! (n mod 10)])"
  by pat_completeness auto
termination
  by (relation "measure id") auto

definition show_int :: "int \<Rightarrow> string" where
  "show_int i = (if i < 0 then ''-'' @ show_nat (nat (- i)) else show_nat (nat i))"

definition getDescription :: "string \<Rightarrow> string" where
  "getDescription photoType =
     (if photoType = PhotoTypeLandscape then ''Beautiful landscape photo''
      else if photoType = PhotoTypePortrait then ''Portrait photo''
      else ''Standard photo'')"

definition CreatePhoto :: "env \<Rightarrow> string \<Rightarrow> Image" where
  "CreatePhoto e photoType =
     (let data = Some (map (rand_byte e) [0..<defaultDataSize]);
          metadata = \<lparr>ID = [], Width = defaultWidth, Height = defaultHeight,
            CapturedAt = now_CapturedAt e, Rating = rand_Intn e maxRating + minRating,
            Filters = empty_slice, Format = defaultFormat,
            Description = getDescription photoType\<rparr>;
          id' = ''photo-'' @ show_int (now_UnixNano e)
      in NewBasicImage id' data metadata)"

section \<open>Encoders and decoders (package codec)\<close>

definition JPEGEncoder_Encode :: "Image \<Rightarrow> bytes \<times> error option" where
  "JPEGEncoder_Encode img =
     (let data = Image_Data img in (Some ([0xFF, 0xD8, 0xFF, 0xE0] @ elems data), None))"

definition JPEGDecoder_Decode :: "bytes \<Rightarrow> Image option \<times> error option" where
  "JPEGDecoder_Decode data =
     (if length (elems data) < 4 \<or> elems data ! 0 \<noteq> 0xFF \<or> elems data ! 1 \<noteq> 0xD8
      then (None, Some (Err ''invalid JPEG data''))
      else (let rawData = Some (drop 4 (elems data));
                metadata = zero_metadata\<lparr>Format := ''JPEG'', Width := 1920, Height := 1080\<rparr>
            in (Some (NewBasicImage ''decoded-jpeg'' rawData metadata), None)))"

definition PNGEncoder_Encode :: "Image \<Rightarrow> bytes \<times> error option" where
  "PNGEncoder_Encode img =
     (let data = Image_Data img
      in (Some ([0x89, 0x50, 0x4E, 0x47, 0x0D, 0x0A, 0x1A, 0x0A] @ elems data), None))"

definition PNGDecoder_Decode :: "bytes \<Rightarrow> Image option \<times> error option" where
  "PNGDecoder_Decode data =
     (if length (elems data) < 8 \<or> elems data ! 0 \<noteq> 0x89 \<or> elems data ! 1 \<noteq> 0x50
      then (None, Some (Err ''invalid PNG data''))
      else (let rawData = Some (drop 8 (elems data));
                metadata = zero_metadata\<lparr>Format := ''PNG'', Width := 1920, Height := 1080\<rparr>
            in (Some (NewBasicImage ''decoded-png'' rawData metadata), None)))"

section \<open>The event bus (package events)\<close>

text \<open>\<^verbatim>\<open>EventType\<close> is a string type with four constants.\<close>

type_synonym EventType = string

definition EventImageCaptured :: EventType where "EventImageCaptured = ''ImageCaptured''"
definition EventImageProcessed :: EventType where "EventImageProcessed = ''ImageProcessed''"
definition EventGallerySorted :: EventType where "EventGallerySorted = ''GallerySorted''"
definition EventImageEncoded :: EventType where "EventImageEncoded = ''ImageEncoded''"

text \<open>The values of the metadata map are of type \<^verbatim>\<open>interface{}\<close>: opaque here.\<close>

typedecl any

record Event =
  ev_Type :: EventType
  ev_Image :: "Image option"
  ev_Message :: string
  ev_Metadata :: "string \<rightharpoonup> any"

definition NewEvent :: "EventType \<Rightarrow> Image option \<Rightarrow> string \<Rightarrow> Event" where
  "NewEvent eventType img message =
     \<lparr>ev_Type = eventType, ev_Image = img, ev_Message = message, ev_Metadata = Map.empty\<rparr>"

text \<open>
  The bus holds the slice of its observers; the backing arrays live in the store. An
  observer is a value of the interface, compared by identity (\<^verbatim>\<open>obs == observer\<close>); the
  type \<open>'o\<close> stands for these values. The mutex is not modelled: the operations below are
  the critical sections, run one after the other.
\<close>

record EventBus =
  observers :: slice

definition NewEventBus :: "'o runtime \<Rightarrow> 'o store \<Rightarrow> EventBus \<times> 'o store" where
  "NewEventBus rt st = (let (s, st') = go_make rt 0 st in (\<lparr>observers = s\<rparr>, st'))"

definition Register :: "'o runtime \<Rightarrow> 'o \<Rightarrow> EventBus \<times> 'o store \<Rightarrow> EventBus \<times> 'o store" where
  "Register rt observer = (\<lambda>(b, st).
     let (s, st') = go_append rt (observers b) [observer] st in (b\<lparr>observers := s\<rparr>, st'))"

text \<open>The slice expressions \<^verbatim>\<open>s[:j]\<close> and \<^verbatim>\<open>s[i:]\<close>; the code uses them with
  \<open>j < len\<close> and \<open>i \<le> len\<close> only, where Go does not panic.\<close>

definition slice_to :: "slice \<Rightarrow> nat \<Rightarrow> slice" where
  "slice_to s j = s\<lparr>s_len := j\<rparr>"

definition slice_from :: "slice \<Rightarrow> nat \<Rightarrow> slice" where
  "slice_from s i = s\<lparr>s_off := s_off s + i, s_len := s_len s - i, s_cap := s_cap s - i\<rparr>"

text \<open>\<^verbatim>\<open>Unregister\<close>: the loop ranges over the slice as it was at loop entry, reads the
  \<open>i\<close>-th cell and, at the first match, splices the entry out with
  \<^verbatim>\<open>append(b.observers[:i], b.observers[i+1:]...)\<close> and returns.\<close>

function Unregister_loop ::
  "'o runtime \<Rightarrow> 'o \<Rightarrow> slice \<Rightarrow> nat \<Rightarrow> EventBus \<times> 'o store \<Rightarrow> EventBus \<times> 'o store" where
  "Unregister_loop rt observer rng i (b, st) =
     (if i < s_len rng then
        (let obs = st ! s_ptr rng ! (s_off rng + i) in
         if obs = observer then
           (let (s, st') = go_append rt (slice_to (observers b) i)
                             (slice_view st (slice_from (observers b) (i + 1))) st
            in (b\<lparr>observers := s\<rparr>, st'))
         else Unregister_loop rt observer rng (i + 1) (b, st))
      else (b, st))"
  by pat_completeness auto
termination
  by (relation "measure (\<lambda>(rt, observer, rng, i, bst). s_len rng - i)") auto

definition Unregister :: "'o runtime \<Rightarrow> 'o \<Rightarrow> EventBus \<times> 'o store \<Rightarrow> EventBus \<times> 'o store" where
  "Unregister rt observer = (\<lambda>(b, st). Unregister_loop rt observer (observers b) 0 (b, st))"

definition ObserverCount :: "EventBus \<times> 'o store \<Rightarrow> nat" where
  "ObserverCount = (\<lambda>(b, st). s_len (observers b))"

text \<open>
  What runs while an event is delivered: \<^verbatim>\<open>OnEvent\<close> of an observer may change the
  private state \<open>'w\<close> of the observers and may call \<^verbatim>\<open>Register\<close> and \<^verbatim>\<open>Unregister\<close>
  on the bus, any number of times and for any observers (itself included). A goroutine that
  gets the lock between two callbacks does the same to the bus, so its operations count as
  part of the list. A callback that publishes an event of its own from inside \<^verbatim>\<open>OnEvent\<close>
  is not modelled, nor is one that panics.
\<close>

datatype 'o bus_op = Reg 'o | Unreg 'o

type_synonym ('o, 'e, 'w) on_event = "'o \<Rightarrow> 'e \<Rightarrow> 'w \<Rightarrow> 'o bus_op list \<times> 'w"

fun run_op :: "'o runtime \<Rightarrow> 'o bus_op \<Rightarrow> EventBus \<times> 'o store \<Rightarrow> EventBus \<times> 'o store" where
  "run_op rt (Reg x) bst = Register rt x bst"
| "run_op rt (Unreg x) bst = Unregister rt x bst"

fun run_ops :: "'o runtime \<Rightarrow> 'o bus_op list \<Rightarrow> EventBus \<times> 'o store \<Rightarrow> EventBus \<times> 'o store" where
  "run_ops rt [] bst = bst"
| "run_ops rt (x # xs) bst = run_ops rt xs (run_op rt x bst)"

text \<open>\<^verbatim>\<open>Notify\<close>: copy the observers into a new slice, then call \<^verbatim>\<open>OnEvent\<close> on the
  cells of the copy, one after the other. The result is the state after the delivery, and
  the calls of \<^verbatim>\<open>OnEvent\<close> this delivery made, in the order it made them.\<close>

function Notify_loop ::
  "'o runtime \<Rightarrow> ('o, 'e, 'w) on_event \<Rightarrow> 'e \<Rightarrow> slice \<Rightarrow> nat \<Rightarrow>
   (EventBus \<times> 'o store) \<times> 'w \<Rightarrow> ('o \<times> 'e) list \<Rightarrow> ((EventBus \<times> 'o store) \<times> 'w) \<times> ('o \<times> 'e) list" where
  "Notify_loop rt OnEvent event rng i (bst, w) calls =
     (if i < s_len rng then
        (let observer = snd bst ! s_ptr rng ! (s_off rng + i);
             (ops, w') = OnEvent observer event w
         in Notify_loop rt OnEvent event rng (i + 1) (run_ops rt ops bst, w')
              (calls @ [(observer, event)]))
      else ((bst, w), calls))"
  by pat_completeness auto
termination
  by (relation "measure (\<lambda>(rt, OnEvent, event, rng, i, s, calls). s_len rng - i)") auto

definition Notify ::
  "'o runtime \<Rightarrow> ('o, 'e, 'w) on_event \<Rightarrow> 'e \<Rightarrow> (EventBus \<times> 'o store) \<times> 'w \<Rightarrow>
   ((EventBus \<times> 'o store) \<times> 'w) \<times> ('o \<times> 'e) list" where
  "Notify rt OnEvent event = (\<lambda>((b, st), w).
     let (observers', st1) = go_make rt (s_len (observers b)) st;
         st2 = go_copy observers' (observers b) st1
     in Notify_loop rt OnEvent event observers' 0 ((b, st2), w) [])"

text \<open>The registration set as the bus sees it, and what every reachable state of the
  bus satisfies: the header of its slice fits the backing array.\<close>

definition bus_ok :: "EventBus \<times> 'o store \<Rightarrow> bool" where
  "bus_ok = (\<lambda>(b, st). slice_ok st (observers b))"

definition bus_view :: "EventBus \<times> 'o store \<Rightarrow> 'o list" where
  "bus_view = (\<lambda>(b, st). slice_view st (observers b))"

text \<open>The bus never writes the array at address \<open>p\<close>: its slice lies elsewhere.\<close>

definition avoids :: "nat \<Rightarrow> EventBus \<times> 'o store \<Rightarrow> bool" where
  "avoids p = (\<lambda>(b, st). p < length st \<and> (s_cap (observers b) = 0 \<or> s_ptr (observers b) \<noteq> p))"

section \<open>Storage (package storage)\<close>

definition ErrNotFound :: error where
  "ErrNotFound = Err ''not found''"

text \<open>The interface \<^verbatim>\<open>Storage\<close>: an implementation is its two methods over its own
  state \<open>'s\<close>.\<close>

record 's Storage =
  st_Save :: "string \<Rightarrow> bytes \<Rightarrow> 's \<Rightarrow> error option \<times> 's"
  st_Load :: "string \<Rightarrow> 's \<Rightarrow> (bytes \<times> error option) \<times> 's"

record MapAdapter =
  m_data :: "string \<rightharpoonup> bytes"

definition NewMapAdapter :: MapAdapter where
  "NewMapAdapter = \<lparr>m_data = Map.empty\<rparr>"

definition MapAdapter_Save :: "string \<Rightarrow> bytes \<Rightarrow> MapAdapter \<Rightarrow> error option \<times> MapAdapter" where
  "MapAdapter_Save id' data m =
     (if id' = [] then (Some (Err ''id cannot be empty''), m)
      else if data = None then (Some (Err ''data cannot be nil''), m)
      else (None, m\<lparr>m_data := (m_data m)(id' \<mapsto> data)\<rparr>))"

definition MapAdapter_Load :: "string \<Rightarrow> MapAdapter \<Rightarrow> (bytes \<times> error option) \<times> MapAdapter" where
  "MapAdapter_Load id' m =
     (case m_data m id' of
        None \<Rightarrow> ((None, Some (ErrWrap [] ErrNotFound ('': '' @ id'))), m)
      | Some data \<Rightarrow> ((data, None), m))"

definition MapAdapter_Storage :: "MapAdapter Storage" where
  "MapAdapter_Storage = \<lparr>st_Save = MapAdapter_Save, st_Load = MapAdapter_Load\<rparr>"

section \<open>The pipeline (package camera, the facade)\<close>

definition FormatPNG :: string where "FormatPNG = ''png''"
definition FormatJPEG :: string where "FormatJPEG = ''jpeg''"

text \<open>The interface \<^verbatim>\<open>codec.Encoder\<close>, and the two encoders the facade can select.\<close>

record Encoder =
  enc_Encode :: "Image \<Rightarrow> bytes \<times> error option"
  enc_Format :: string

definition NewJPEGEncoder :: Encoder where
  "NewJPEGEncoder = \<lparr>enc_Encode = JPEGEncoder_Encode, enc_Format = ''JPEG''\<rparr>"

definition NewPNGEncoder :: Encoder where
  "NewPNGEncoder = \<lparr>enc_Encode = PNGEncoder_Encode, enc_Format = ''PNG''\<rparr>"

text \<open>\<^verbatim>\<open>strings.ToLower\<close> on the letters A to Z; every other byte stays. (No other
  letter of Unicode has \<open>p\<close>, \<open>n\<close> or \<open>g\<close> as its lower case, so the comparison with
  \<open>png\<close> below comes out as in Go.)\<close>

definition to_lower :: "char \<Rightarrow> char" where
  "to_lower c =
     (case map_of (zip ''ABCDEFGHIJKLMNOPQRSTUVWXYZ'' ''abcdefghijklmnopqrstuvwxyz'') c of
        Some l \<Rightarrow> l
      | None \<Rightarrow> c)"

definition ToLower :: "string \<Rightarrow> string" where
  "ToLower s = map to_lower s"

definition selectEncoder :: "string \<Rightarrow> Encoder" where
  "selectEncoder format' = (if ToLower format' = FormatPNG then NewPNGEncoder else NewJPEGEncoder)"

text \<open>
  The interface \<^verbatim>\<open>events.Subject\<close> as far as the facade uses it: \<^verbatim>\<open>Notify\<close>, acting
  on the state \<open>'b\<close> of whatever implements it.
\<close>

record 'b Subject =
  subj_Notify :: "Event \<Rightarrow> 'b \<Rightarrow> 'b"

text \<open>\<^verbatim>\<open>*EventBus\<close> implements it: its state is the bus with the store of its arrays and
  the private state of the observers.\<close>

definition EventBus_Subject ::
  "'o runtime \<Rightarrow> ('o, Event, 'w) on_event \<Rightarrow> ((EventBus \<times> 'o store) \<times> 'w) Subject" where
  "EventBus_Subject rt OnEvent = \<lparr>subj_Notify = (\<lambda>ev b. fst (Notify rt OnEvent ev b))\<rparr>"

record ('b, 's) Facade =
  eventBus :: "'b Subject"
  storage :: "'s Storage"

text \<open>
  What the facade acts on: the state of the bus, the state of the storage, and the log of
  the events the facade has handed to \<^verbatim>\<open>eventBus.Notify\<close>, oldest first. The log is
  not in the Go program; it records the calls so that theorems can speak about them.
\<close>

record ('b, 's) world =
  w_bus :: 'b
  w_store :: 's
  w_published :: "Event list"

definition publish :: "('b, 's) Facade \<Rightarrow> Event \<Rightarrow> ('b, 's) world \<Rightarrow> ('b, 's) world" where
  "publish F ev w =
     w\<lparr>w_bus := subj_Notify (eventBus F) ev (w_bus w), w_published := w_published w @ [ev]\<rparr>"

definition createPhoto ::
  "('b, 's) Facade \<Rightarrow> env \<Rightarrow> string \<Rightarrow> ('b, 's) world \<Rightarrow> Image \<times> ('b, 's) world" where
  "createPhoto F e photoType w =
     (let photo = CreatePhoto e photoType
      in (photo, publish F (NewEvent EventImageCaptured (Some photo) ''Photo created'') w))"

text \<open>\<^verbatim>\<open>Facade.applyFilters\<close>: the loop over the filters; a panic of the constructor ends it.\<close>

fun applyFilters :: "Image \<Rightarrow> string list \<Rightarrow> string + Image" where
  "applyFilters processed [] = Inr processed"
| "applyFilters processed (f # fs) =
     (case NewFilterDecorator (Some processed) f of
        Inl p \<Rightarrow> Inl p
      | Inr w \<Rightarrow> applyFilters w fs)"

text \<open>\<^verbatim>\<open>encodePhoto\<close>: \<^verbatim>\<open>Encode\<close> of the encoder that \<^verbatim>\<open>selectEncoder\<close> returns.\<close>

definition encodePhoto :: "Image \<Rightarrow> string \<Rightarrow> bytes \<times> error option" where
  "encodePhoto img format' = (let encoder = selectEncoder format' in enc_Encode encoder img)"

text \<open>
  \<^verbatim>\<open>CaptureAndProcess\<close>. The outcome is \<open>Inl\<close> of the message when the call panics, else
  \<open>Inr\<close> of the pair of results the call returns.
\<close>

definition CaptureAndProcess ::
  "('b, 's) Facade \<Rightarrow> env \<Rightarrow> string \<Rightarrow> string list \<Rightarrow> string \<Rightarrow>
   ('b, 's) world \<Rightarrow> (string + bytes \<times> error option) \<times> ('b, 's) world" where
  "CaptureAndProcess F e photoType filters format' w =
     (let (photo, w1) = createPhoto F e photoType w in
      case applyFilters photo filters of
        Inl p \<Rightarrow> (Inl p, w1)
      | Inr processed \<Rightarrow>
         (case encodePhoto processed format' of
            (encoded, Some err) \<Rightarrow> (Inr (None, Some (ErrWrap ''encode photo: '' err [])), w1)
          | (encoded, None) \<Rightarrow>
             (case st_Save (storage F) (Image_ID processed) encoded (w_store w1) of
                (Some err, s') \<Rightarrow>
                  (Inr (None, Some (ErrWrap ''save photo: '' err [])), w1\<lparr>w_store := s'\<rparr>)
              | (None, s') \<Rightarrow>
                  (Inr (encoded, None),
                   publish F (NewEvent EventImageProcessed (Some processed) ''Processed'')
                     (w1\<lparr>w_store := s'\<rparr>)))))"

definition QuickCapture ::
  "('b, 's) Facade \<Rightarrow> env \<Rightarrow> string \<Rightarrow> ('b, 's) world \<Rightarrow> (Image \<times> error option) \<times> ('b, 's) world" where
  "QuickCapture F e photoType w =
     (let (photo, w1) = createPhoto F e photoType w in ((photo, None), w1))"

section \<open>Sorting the gallery (package gallery)\<close>

subsection \<open>\<^verbatim>\<open>sort.Slice\<close> of the Go standard library\<close>

text \<open>
  The strategies call \<^verbatim>\<open>sort.Slice\<close>, which is not code of this repository. It is
  transcribed here from the standard library (package \<^verbatim>\<open>sort\<close>, the pattern-defeating
  quicksort \<^verbatim>\<open>pdqsort_func\<close> of Go 1.19 and later) with the names of its functions.
  The data is the list of the elements of the slice; \<^verbatim>\<open>data.Less(i, j)\<close> is \<open>lt\<close> on the
  elements at \<open>i\<close> and \<open>j\<close>, \<^verbatim>\<open>data.Swap(i, j)\<close> is \<open>Swap\<close>. Indices are natural numbers:
  in a run of \<^verbatim>\<open>sort.Slice\<close> no index is negative but the counters of two loops of
  \<^verbatim>\<open>heapSort_func\<close> when they end, which are written as recursion on the number of
  rounds left.
\<close>

definition Swap :: "'a list \<Rightarrow> nat \<Rightarrow> nat \<Rightarrow> 'a list" where
  "Swap xs i j = xs[i := xs ! j, j := xs ! i]"

function insertionSort_inner :: "('a \<Rightarrow> 'a \<Rightarrow> bool) \<Rightarrow> nat \<Rightarrow> nat \<Rightarrow> 'a list \<Rightarrow> 'a list" where
  "insertionSort_inner lt a j xs =
     (if j > a \<and> lt (xs ! j) (xs ! (j - 1))
      then insertionSort_inner lt a (j - 1) (Swap xs j (j - 1))
      else xs)"
  by pat_completeness auto
termination
  by (relation "measure (\<lambda>(lt, a, j, xs). j)") auto

declare insertionSort_inner.simps [simp del]

function insertionSort_loop :: "('a \<Rightarrow> 'a \<Rightarrow> bool) \<Rightarrow> nat \<Rightarrow> nat \<Rightarrow> nat \<Rightarrow> 'a list \<Rightarrow> 'a list" where
  "insertionSort_loop lt a b i xs =
     (if i < b then insertionSort_loop lt a b (i + 1) (insertionSort_inner lt a i xs) else xs)"
  by pat_completeness auto
termination
  by (relation "measure (\<lambda>(lt, a, b, i, xs). b - i)") auto

declare insertionSort_loop.simps [simp del]

definition insertionSort_func :: "('a \<Rightarrow> 'a \<Rightarrow> bool) \<Rightarrow> 'a list \<Rightarrow> nat \<Rightarrow> nat \<Rightarrow> 'a list" where
  "insertionSort_func lt xs a b = insertionSort_loop lt a b (a + 1) xs"

function siftDown_loop :: "('a \<Rightarrow> 'a \<Rightarrow> bool) \<Rightarrow> nat \<Rightarrow> nat \<Rightarrow> nat \<Rightarrow> 'a list \<Rightarrow> 'a list" where
  "siftDown_loop lt hi first root xs =
     (let child = 2 * root + 1 in
      if child \<ge> hi then xs
      else
        (let child' = (if child + 1 < hi \<and> lt (xs ! (first + child)) (xs ! (first + child + 1))
                        then child + 1 else child)
         in if \<not> lt (xs ! (first + root)) (xs ! (first + child')) then xs
            else siftDown_loop lt hi first child' (Swap xs (first + root) (first + child'))))"
  by pat_completeness auto
termination
  by (relation "measure (\<lambda>(lt, hi, first, root, xs). hi - root)") (auto split: if_splits)

declare siftDown_loop.simps [simp del]

definition siftDown_func :: "('a \<Rightarrow> 'a \<Rightarrow> bool) \<Rightarrow> 'a list \<Rightarrow> nat \<Rightarrow> nat \<Rightarrow> nat \<Rightarrow> 'a list" where
  "siftDown_func lt xs lo hi first = siftDown_loop lt hi first lo xs"

text \<open>The two loops of \<^verbatim>\<open>heapSort_func\<close> count \<open>i\<close> down to 0; the argument \<open>Suc i\<close>
  is the number of rounds left, the round is the one for \<open>i\<close>.\<close>

primrec heapSort_build :: "('a \<Rightarrow> 'a \<Rightarrow> bool) \<Rightarrow> nat \<Rightarrow> nat \<Rightarrow> nat \<Rightarrow> 'a list \<Rightarrow> 'a list" where
  "heapSort_build lt hi first 0 xs = xs"
| "heapSort_build lt hi first (Suc i) xs =
     heapSort_build lt hi first i (siftDown_func lt xs i hi first)"

primrec heapSort_pop :: "('a \<Rightarrow> 'a \<Rightarrow> bool) \<Rightarrow> nat \<Rightarrow> nat \<Rightarrow> nat \<Rightarrow> 'a list \<Rightarrow> 'a list" where
  "heapSort_pop lt lo first 0 xs = xs"
| "heapSort_pop lt lo first (Suc i) xs =
     heapSort_pop lt lo first i (siftDown_func lt (Swap xs first (first + i)) lo i first)"

definition heapSort_func :: "('a \<Rightarrow> 'a \<Rightarrow> bool) \<Rightarrow> 'a list \<Rightarrow> nat \<Rightarrow> nat \<Rightarrow> 'a list" where
  "heapSort_func lt xs a b =
     (let first = a; lo = 0; hi = b - a
      in heapSort_pop lt lo first hi (heapSort_build lt hi first ((hi - 1) div 2 + 1) xs))"

text \<open>The scans of \<^verbatim>\<open>partition_func\<close>. The index \<open>i\<close> starts above \<open>a\<close>, so \<open>j\<close> is
  positive wherever \<open>i \<le> j\<close>; the test \<open>0 < j\<close> is not in the Go code and only makes the
  recursion well-founded for the arguments that never occur.\<close>

function partition_up :: "('a \<Rightarrow> 'a \<Rightarrow> bool) \<Rightarrow> 'a list \<Rightarrow> nat \<Rightarrow> nat \<Rightarrow> nat \<Rightarrow> nat" where
  "partition_up lt xs a i j =
     (if i \<le> j \<and> lt (xs ! i) (xs ! a) then partition_up lt xs a (i + 1) j else i)"
  by pat_completeness auto
termination
  by (relation "measure (\<lambda>(lt, xs, a, i, j). j + 1 - i)") auto

declare partition_up.simps [simp del]

function partition_down :: "('a \<Rightarrow> 'a \<Rightarrow> bool) \<Rightarrow> 'a list \<Rightarrow> nat \<Rightarrow> nat \<Rightarrow> nat \<Rightarrow> nat" where
  "partition_down lt xs a i j =
     (if i \<le> j \<and> 0 < j \<and> \<not> lt (xs ! j) (xs ! a) then partition_down lt xs a i (j - 1) else j)"
  by pat_completeness auto
termination
  by (relation "measure (\<lambda>(lt, xs, a, i, j). j)") auto

declare partition_down.simps [simp del]

lemma partition_up_ge: "i \<le> partition_up lt xs a i j"
  by (induction lt xs a i j rule: partition_up.induct) (subst partition_up.simps, auto)

lemma partition_down_le: "partition_down lt xs a i j \<le> j"
  by (induction lt xs a i j rule: partition_down.induct) (subst partition_down.simps, auto)

function partition_loop ::
  "('a \<Rightarrow> 'a \<Rightarrow> bool) \<Rightarrow> 'a list \<Rightarrow> nat \<Rightarrow> nat \<Rightarrow> nat \<Rightarrow> 'a list \<times> nat" where
  "partition_loop lt xs a i j =
     (let i' = partition_up lt xs a i j;
          j' = partition_down lt xs a i' j
      in if i' > j' then (xs, j')
         else partition_loop lt (Swap xs i' j') a (i' + 1) (j' - 1))"
  by pat_completeness auto
termination
proof (relation "measure (\<lambda>(lt, xs, a, i, j). j + 1 - i)", goal_cases)
  case 1
  show ?case by simp
next
  case (2 lt xs a i j i' j')
  with partition_up_ge [of i lt xs a j] partition_down_le [of lt xs a i' j]
  show ?case by auto
qed

declare partition_loop.simps [simp del]

definition partition_func ::
  "('a \<Rightarrow> 'a \<Rightarrow> bool) \<Rightarrow> 'a list \<Rightarrow> nat \<Rightarrow> nat \<Rightarrow> nat \<Rightarrow> 'a list \<times> nat \<times> bool" where
  "partition_func lt xs a b pivot =
     (let xs1 = Swap xs a pivot;
          i = partition_up lt xs1 a (a + 1) (b - 1);
          j = partition_down lt xs1 a i (b - 1)
      in if i > j then (Swap xs1 j a, j, True)
         else
           (let (xs2, j') = partition_loop lt (Swap xs1 i j) a (i + 1) (j - 1)
            in (Swap xs2 j' a, j', False)))"

function partitionEqual_up :: "('a \<Rightarrow> 'a \<Rightarrow> bool) \<Rightarrow> 'a list \<Rightarrow> nat \<Rightarrow> nat \<Rightarrow> nat \<Rightarrow> nat" where
  "partitionEqual_up lt xs a i j =
     (if i \<le> j \<and> \<not> lt (xs ! a) (xs ! i) then partitionEqual_up lt xs a (i + 1) j else i)"
  by pat_completeness auto
termination
  by (relation "measure (\<lambda>(lt, xs, a, i, j). j + 1 - i)") auto

declare partitionEqual_up.simps [simp del]

function partitionEqual_down :: "('a \<Rightarrow> 'a \<Rightarrow> bool) \<Rightarrow> 'a list \<Rightarrow> nat \<Rightarrow> nat \<Rightarrow> nat \<Rightarrow> nat" where
  "partitionEqual_down lt xs a i j =
     (if i \<le> j \<and> 0 < j \<and> lt (xs ! a) (xs ! j) then partitionEqual_down lt xs a i (j - 1) else j)"
  by pat_completeness auto
termination
  by (relation "measure (\<lambda>(lt, xs, a, i, j). j)") auto

declare partitionEqual_down.simps [simp del]

lemma partitionEqual_up_ge: "i \<le> partitionEqual_up lt xs a i j"
  by (induction lt xs a i j rule: partitionEqual_up.induct) (subst partitionEqual_up.simps, auto)

lemma partitionEqual_down_le: "partitionEqual_down lt xs a i j \<le> j"
  by (induction lt xs a i j rule: partitionEqual_down.induct) (subst partitionEqual_down.simps, auto)

function partitionEqual_loop ::
  "('a \<Rightarrow> 'a \<Rightarrow> bool) \<Rightarrow> 'a list \<Rightarrow> nat \<Rightarrow> nat \<Rightarrow> nat \<Rightarrow> 'a list \<times> nat" where
  "partitionEqual_loop lt xs a i j =
     (let i' = partitionEqual_up lt xs a i j;
          j' = partitionEqual_down lt xs a i' j
      in if i' > j' then (xs, i')
         else partitionEqual_loop lt (Swap xs i' j') a (i' + 1) (j' - 1))"
  by pat_completeness auto
termination
proof (relation "measure (\<lambda>(lt, xs, a, i, j). j + 1 - i)", goal_cases)
  case 1
  show ?case by simp
next
  case (2 lt xs a i j i' j')
  with partitionEqual_up_ge [of i lt xs a j] partitionEqual_down_le [of lt xs a i' j]
  show ?case by auto
qed

declare partitionEqual_loop.simps [simp del]

definition partitionEqual_func ::
  "('a \<Rightarrow> 'a \<Rightarrow> bool) \<Rightarrow> 'a list \<Rightarrow> nat \<Rightarrow> nat \<Rightarrow> nat \<Rightarrow> 'a list \<times> nat" where
  "partitionEqual_func lt xs a b pivot =
     partitionEqual_loop lt (Swap xs a pivot) a (a + 1) (b - 1)"

text \<open>\<^verbatim>\<open>partialInsertionSort_func\<close>: at most \<open>maxSteps = 5\<close> rounds; arrays shorter than
  \<open>shortestShifting = 50\<close> are only scanned.\<close>

function partialInsertionSort_scan :: "('a \<Rightarrow> 'a \<Rightarrow> bool) \<Rightarrow> 'a list \<Rightarrow> nat \<Rightarrow> nat \<Rightarrow> nat" where
  "partialInsertionSort_scan lt xs b i =
     (if i < b \<and> \<not> lt (xs ! i) (xs ! (i - 1)) then partialInsertionSort_scan lt xs b (i + 1) else i)"
  by pat_completeness auto
termination
  by (relation "measure (\<lambda>(lt, xs, b, i). b - i)") auto

declare partialInsertionSort_scan.simps [simp del]

function shift_left :: "('a \<Rightarrow> 'a \<Rightarrow> bool) \<Rightarrow> nat \<Rightarrow> 'a list \<Rightarrow> 'a list" where
  "shift_left lt j xs =
     (if j \<ge> 1 then
        (if \<not> lt (xs ! j) (xs ! (j - 1)) then xs else shift_left lt (j - 1) (Swap xs j (j - 1)))
      else xs)"
  by pat_completeness auto
termination
  by (relation "measure (\<lambda>(lt, j, xs). j)") auto

declare shift_left.simps [simp del]

function shift_right :: "('a \<Rightarrow> 'a \<Rightarrow> bool) \<Rightarrow> nat \<Rightarrow> nat \<Rightarrow> 'a list \<Rightarrow> 'a list" where
  "shift_right lt b j xs =
     (if j < b then
        (if \<not> lt (xs ! j) (xs ! (j - 1)) then xs else shift_right lt b (j + 1) (Swap xs j (j - 1)))
      else xs)"
  by pat_completeness auto
termination
  by (relation "measure (\<lambda>(lt, b, j, xs). b - j)") auto

declare shift_right.simps [simp del]

primrec partialInsertionSort_steps ::
  "('a \<Rightarrow> 'a \<Rightarrow> bool) \<Rightarrow> nat \<Rightarrow> nat \<Rightarrow> nat \<Rightarrow> nat \<Rightarrow> 'a list \<Rightarrow> 'a list \<times> bool" where
  "partialInsertionSort_steps lt a b 0 i xs = (xs, False)"
| "partialInsertionSort_steps lt a b (Suc n) i xs =
     (let i' = partialInsertionSort_scan lt xs b i in
      if i' = b then (xs, True)
      else if b - a < 50 then (xs, False)
      else
        (let xs1 = Swap xs i' (i' - 1);
             xs2 = (if i' - a \<ge> 2 then shift_left lt (i' - 1) xs1 else xs1);
             xs3 = (if b - i' \<ge> 2 then shift_right lt b (i' + 1) xs2 else xs2)
         in partialInsertionSort_steps lt a b n i' xs3))"

definition partialInsertionSort_func ::
  "('a \<Rightarrow> 'a \<Rightarrow> bool) \<Rightarrow> 'a list \<Rightarrow> nat \<Rightarrow> nat \<Rightarrow> 'a list \<times> bool" where
  "partialInsertionSort_func lt xs a b = partialInsertionSort_steps lt a b 5 (a + 1) xs"

text \<open>\<^verbatim>\<open>bits.Len\<close>, and \<^verbatim>\<open>breakPatterns_func\<close>. The pseudo-random generator of the library
  (an xorshift on 64 bits, seeded with the length) enters as its step function \<open>nxt\<close>:
  nothing below depends on which function it is. The mask \<^verbatim>\<open>& (modulus - 1)\<close> with a
  power of two is \<open>mod modulus\<close>.\<close>

fun bits_Len :: "nat \<Rightarrow> nat" where
  "bits_Len n = (if n = 0 then 0 else Suc (bits_Len (n div 2)))"

definition nextPowerOfTwo :: "nat \<Rightarrow> nat" where
  "nextPowerOfTwo length' = 2 ^ bits_Len length'"

primrec breakPatterns_loop ::
  "(64 word \<Rightarrow> 64 word) \<Rightarrow> nat \<Rightarrow> nat \<Rightarrow> nat \<Rightarrow> nat \<Rightarrow> nat \<Rightarrow> nat \<Rightarrow> 64 word \<Rightarrow> 'a list \<Rightarrow> 'a list" where
  "breakPatterns_loop nxt a length' modulus idx 0 i random xs = xs"
| "breakPatterns_loop nxt a length' modulus idx (Suc n) i random xs =
     (let random' = nxt random;
          other = unat random' mod modulus;
          other' = (if other \<ge> length' then other - length' else other)
      in breakPatterns_loop nxt a length' modulus idx n (i + 1) random'
           (Swap xs (idx - 1 + i) (a + other')))"

definition breakPatterns_func ::
  "(64 word \<Rightarrow> 64 word) \<Rightarrow> 'a list \<Rightarrow> nat \<Rightarrow> nat \<Rightarrow> 'a list" where
  "breakPatterns_func nxt xs a b =
     (let length' = b - a in
      if length' \<ge> 8 then
        (let random = (word_of_nat length' :: 64 word);
             modulus = nextPowerOfTwo length';
             idx = a + (length' div 4) * 2 - 1
         in breakPatterns_loop nxt a length' modulus idx 3 0 random xs)
      else xs)"

datatype sortedHint = unknownHint | increasingHint | decreasingHint

definition order2_func ::
  "('a \<Rightarrow> 'a \<Rightarrow> bool) \<Rightarrow> 'a list \<Rightarrow> nat \<Rightarrow> nat \<Rightarrow> nat \<Rightarrow> nat \<times> nat \<times> nat" where
  "order2_func lt xs a b swaps =
     (if lt (xs ! b) (xs ! a) then (b, a, swaps + 1) else (a, b, swaps))"

definition median_func ::
  "('a \<Rightarrow> 'a \<Rightarrow> bool) \<Rightarrow> 'a list \<Rightarrow> nat \<Rightarrow> nat \<Rightarrow> nat \<Rightarrow> nat \<Rightarrow> nat \<times> nat" where
  "median_func lt xs a b c swaps =
     (let (a1, b1, s1) = order2_func lt xs a b swaps;
          (b2, c2, s2) = order2_func lt xs b1 c s1;
          (a3, b3, s3) = order2_func lt xs a1 b2 s2
      in (b3, s3))"

definition medianAdjacent_func ::
  "('a \<Rightarrow> 'a \<Rightarrow> bool) \<Rightarrow> 'a list \<Rightarrow> nat \<Rightarrow> nat \<Rightarrow> nat \<times> nat" where
  "medianAdjacent_func lt xs a swaps = median_func lt xs (a - 1) a (a + 1) swaps"

definition choosePivot_func ::
  "('a \<Rightarrow> 'a \<Rightarrow> bool) \<Rightarrow> 'a list \<Rightarrow> nat \<Rightarrow> nat \<Rightarrow> nat \<times> sortedHint" where
  "choosePivot_func lt xs a b =
     (let l = b - a;
          i = a + l div 4 * 1;
          j = a + l div 4 * 2;
          k = a + l div 4 * 3;
          (j', swaps) =
            (if l \<ge> 8 then
               (let (i1, k1, j1, s1) =
                      (if l \<ge> 50 then
                         (let (i', s') = medianAdjacent_func lt xs i 0;
                              (j', s'') = medianAdjacent_func lt xs j s';
                              (k', s''') = medianAdjacent_func lt xs k s''
                          in (i', k', j', s'''))
                       else (i, k, j, 0))
                in median_func lt xs i1 j1 k1 s1)
             else (j, 0))
      in if swaps = 0 then (j', increasingHint)
         else if swaps = 4 * 3 then (j', decreasingHint)
         else (j', unknownHint))"

function reverseRange_loop :: "nat \<Rightarrow> nat \<Rightarrow> 'a list \<Rightarrow> 'a list" where
  "reverseRange_loop i j xs =
     (if i < j then reverseRange_loop (i + 1) (j - 1) (Swap xs i j) else xs)"
  by pat_completeness auto
termination
  by (relation "measure (\<lambda>(i, j, xs). j - i)") auto

declare reverseRange_loop.simps [simp del]

definition reverseRange_func :: "'a list \<Rightarrow> nat \<Rightarrow> nat \<Rightarrow> 'a list" where
  "reverseRange_func xs a b = reverseRange_loop a (b - 1) xs"

text \<open>Where the partitions end: what the termination of \<^verbatim>\<open>pdqsort_func\<close> rests on.\<close>

lemma partition_down_ge: "min j (i - 1) \<le> partition_down lt xs a i j"
  by (induction lt xs a i j rule: partition_down.induct) (subst partition_down.simps, auto)

lemma partition_loop_bounds:
  "min j (i - 1) \<le> snd (partition_loop lt xs a i j) \<and> snd (partition_loop lt xs a i j) \<le> j"
proof (induction lt xs a i j rule: partition_loop.induct)
  case (1 lt xs a i j)
  let ?i = "partition_up lt xs a i j"
  let ?j = "partition_down lt xs a ?i j"
  have b: "i \<le> ?i" "?j \<le> j" "min j (?i - 1) \<le> ?j"
    by (rule partition_up_ge, rule partition_down_le, rule partition_down_ge)
  show ?case
  proof (cases "?i > ?j")
    case True
    then have "partition_loop lt xs a i j = (xs, ?j)"
      by (subst partition_loop.simps) (simp add: Let_def)
    with b show ?thesis by auto
  next
    case False
    then have "partition_loop lt xs a i j = partition_loop lt (Swap xs ?i ?j) a (?i + 1) (?j - 1)"
      by (subst partition_loop.simps) (simp add: Let_def)
    with "1.IH" [OF refl refl False] b False show ?thesis by auto
  qed
qed

lemma partition_func_bounds:
  assumes "a < b"
  shows "a \<le> fst (snd (partition_func lt xs a b pivot)) \<and> fst (snd (partition_func lt xs a b pivot)) < b"
proof -
  define ys where "ys = Swap xs a pivot"
  define i where "i = partition_up lt ys a (a + 1) (b - 1)"
  define j where "j = partition_down lt ys a i (b - 1)"
  have b1: "a + 1 \<le> i" unfolding i_def by (rule partition_up_ge)
  have b2: "j \<le> b - 1" unfolding j_def by (rule partition_down_le)
  have b3: "min (b - 1) (i - 1) \<le> j" unfolding j_def by (rule partition_down_ge)
  from b1 b3 assms have b4: "a \<le> j" by (simp add: min_def split: if_splits)
  show ?thesis
  proof (cases "i > j")
    case True
    then have "partition_func lt xs a b pivot = (Swap ys j a, j, True)"
      by (simp add: partition_func_def Let_def ys_def i_def j_def)
    with b2 b4 assms show ?thesis by simp
  next
    case False
    define r where "r = partition_loop lt (Swap ys i j) a (i + 1) (j - 1)"
    from False have "partition_func lt xs a b pivot = (Swap (fst r) (snd r) a, snd r, False)"
      by (simp add: partition_func_def Let_def ys_def i_def j_def r_def split_def)
    moreover from partition_loop_bounds [of "j - 1" "i + 1" lt "Swap ys i j" a]
    have "min (j - 1) i \<le> snd r" "snd r \<le> j - 1" by (simp_all add: r_def)
    moreover have "a \<le> min (j - 1) i" "j - 1 < b" using b1 b2 False assms by simp_all
    ultimately have "a \<le> snd r" "snd r < b" by linarith+
    with \<open>partition_func lt xs a b pivot = (Swap (fst r) (snd r) a, snd r, False)\<close>
    show ?thesis by simp
  qed
qed

lemma partition_func_bounds_long:
  assumes "\<not> b - a \<le> (12::nat)" "partition_func lt xs a b pivot = (ys, mid, p)"
  shows "a \<le> mid" "mid < b"
proof -
  from assms(1) have "a < b" by simp
  from partition_func_bounds [OF this, of lt xs pivot] assms(2) show "a \<le> mid" "mid < b" by simp_all
qed

lemma partitionEqual_loop_ge: "i \<le> snd (partitionEqual_loop lt xs a i j)"
proof (induction lt xs a i j rule: partitionEqual_loop.induct)
  case (1 lt xs a i j)
  let ?i = "partitionEqual_up lt xs a i j"
  let ?j = "partitionEqual_down lt xs a ?i j"
  have b: "i \<le> ?i" by (rule partitionEqual_up_ge)
  show ?case
  proof (cases "?i > ?j")
    case True
    then have "partitionEqual_loop lt xs a i j = (xs, ?i)"
      by (subst partitionEqual_loop.simps) (simp add: Let_def)
    with b show ?thesis by simp
  next
    case False
    then have "partitionEqual_loop lt xs a i j =
        partitionEqual_loop lt (Swap xs ?i ?j) a (?i + 1) (?j - 1)"
      by (subst partitionEqual_loop.simps) (simp add: Let_def)
    with "1.IH" [OF refl refl False] b show ?thesis by simp
  qed
qed

lemma partitionEqual_func_gt: "a < snd (partitionEqual_func lt xs a b pivot)"
  using partitionEqual_loop_ge [of "a + 1" lt "Swap xs a pivot" a "b - 1"]
  by (simp add: partitionEqual_func_def)

text \<open>
  One round of the loop of \<^verbatim>\<open>pdqsort_func\<close> up to the partition: break patterns after
  an unbalanced partition, choose the pivot, reverse a decreasing range, try the partial
  insertion sort. It yields the data, the pivot, the limit, and whether the range is
  sorted already.
\<close>

definition pdqsort_prepare ::
  "(64 word \<Rightarrow> 64 word) \<Rightarrow> ('a \<Rightarrow> 'a \<Rightarrow> bool) \<Rightarrow> 'a list \<Rightarrow> nat \<Rightarrow> nat \<Rightarrow> nat \<Rightarrow> bool \<Rightarrow> bool \<Rightarrow>
   'a list \<times> nat \<times> nat \<times> bool" where
  "pdqsort_prepare nxt lt xs a b limit wasBalanced wasPartitioned =
     (let xs1 = (if \<not> wasBalanced then breakPatterns_func nxt xs a b else xs);
          limit1 = (if \<not> wasBalanced then limit - 1 else limit);
          (pivot0, hint0) = choosePivot_func lt xs1 a b;
          xs2 = (if hint0 = decreasingHint then reverseRange_func xs1 a b else xs1);
          pivot = (if hint0 = decreasingHint then (b - 1) - (pivot0 - a) else pivot0);
          hint = (if hint0 = decreasingHint then increasingHint else hint0);
          (xs3, sorted') =
            (if wasBalanced \<and> wasPartitioned \<and> hint = increasingHint
             then partialInsertionSort_func lt xs2 a b else (xs2, False))
      in (xs3, pivot, limit1, sorted'))"

text \<open>The loop of \<^verbatim>\<open>pdqsort_func\<close>; its two local flags are arguments here, and a
  recursive call of the Go function starts with both set.\<close>

function pdqsort_loop ::
  "(64 word \<Rightarrow> 64 word) \<Rightarrow> ('a \<Rightarrow> 'a \<Rightarrow> bool) \<Rightarrow> 'a list \<Rightarrow> nat \<Rightarrow> nat \<Rightarrow> nat \<Rightarrow> bool \<Rightarrow> bool \<Rightarrow> 'a list" where
  "pdqsort_loop nxt lt xs a b limit wasBalanced wasPartitioned =
     (if b - a \<le> 12 then insertionSort_func lt xs a b
      else if limit = 0 then heapSort_func lt xs a b
      else
        (case pdqsort_prepare nxt lt xs a b limit wasBalanced wasPartitioned of
           (xs3, pivot, limit1, sorted') \<Rightarrow>
             if sorted' then xs3
             else if a > 0 \<and> \<not> lt (xs3 ! (a - 1)) (xs3 ! pivot) then
               (case partitionEqual_func lt xs3 a b pivot of
                  (xs4, mid) \<Rightarrow> pdqsort_loop nxt lt xs4 mid b limit1 wasBalanced wasPartitioned)
             else
               (case partition_func lt xs3 a b pivot of
                  (xs4, mid, alreadyPartitioned) \<Rightarrow>
                    if mid - a < b - mid then
                      pdqsort_loop nxt lt (pdqsort_loop nxt lt xs4 a mid limit1 True True)
                        (mid + 1) b limit1 (mid - a \<ge> (b - a) div 8) alreadyPartitioned
                    else
                      pdqsort_loop nxt lt (pdqsort_loop nxt lt xs4 (mid + 1) b limit1 True True)
                        a mid limit1 (b - mid \<ge> (b - a) div 8) alreadyPartitioned)))"
  by pat_completeness auto
termination
  apply (relation "measure (\<lambda>(nxt, lt, xs, a, b, limit, wb, wp). b - a)")
       apply simp_all
  subgoal for nxt lt xs a b limit wasBalanced wasPartitioned x y xa ya xb yb xc yc
    using partitionEqual_func_gt [of a lt x b xa]
    by (cases "partitionEqual_func lt x a b xa") auto
  subgoal for nxt lt xs a b limit wasBalanced wasPartitioned x y xa ya xb yb xc yc xd yd
    using partition_func_bounds_long [of b a lt x xa xc xd yd] by auto
  subgoal for nxt lt xs a b limit wasBalanced wasPartitioned x y xa ya xb yb xc yc xd yd
    using partition_func_bounds_long [of b a lt x xa xc xd yd] by auto
  done

declare pdqsort_loop.simps [simp del]

definition pdqsort_func ::
  "(64 word \<Rightarrow> 64 word) \<Rightarrow> ('a \<Rightarrow> 'a \<Rightarrow> bool) \<Rightarrow> 'a list \<Rightarrow> nat \<Rightarrow> nat \<Rightarrow> nat \<Rightarrow> 'a list" where
  "pdqsort_func nxt lt xs a b limit = pdqsort_loop nxt lt xs a b limit True True"

text \<open>\<^verbatim>\<open>sort.Slice(x, less)\<close> on the elements of \<open>x\<close>.\<close>

definition sort_Slice :: "(64 word \<Rightarrow> 64 word) \<Rightarrow> ('a \<Rightarrow> 'a \<Rightarrow> bool) \<Rightarrow> 'a list \<Rightarrow> 'a list" where
  "sort_Slice nxt lt xs =
     (let length' = length xs; limit = bits_Len length'
      in pdqsort_func nxt lt xs 0 length' limit)"

subsection \<open>The strategies\<close>

text \<open>
  The comparison functions read \<^verbatim>\<open>Metadata().CapturedAt\<close> and \<^verbatim>\<open>Metadata().Rating\<close>.
  On a decorated image \<^verbatim>\<open>Metadata()\<close> appends to the filters, which acts on the store of
  string arrays only; every other field is the one of the base image. The sort below reads
  the keys from the base metadata and leaves the store of strings out.
\<close>

lemma Image_Metadata_fields:
  "(fst (Image_Metadata rt img st))\<lparr>Filters := Filters (base_metadata img)\<rparr> = base_metadata img"
  by (induction img arbitrary: st) (auto simp: split_def Let_def)

definition SortByDate_less :: "bool \<Rightarrow> Image \<Rightarrow> Image \<Rightarrow> bool" where
  "SortByDate_less ascending x y =
     (if ascending then CapturedAt (base_metadata x) < CapturedAt (base_metadata y)
      else CapturedAt (base_metadata x) > CapturedAt (base_metadata y))"

definition SortByRating_less :: "bool \<Rightarrow> Image \<Rightarrow> Image \<Rightarrow> bool" where
  "SortByRating_less ascending x y =
     (if ascending then Rating (base_metadata x) < Rating (base_metadata y)
      else Rating (base_metadata x) > Rating (base_metadata y))"

text \<open>\<^verbatim>\<open>sort.Slice\<close> on a slice: the cells of the slice get the sorted elements. The
  sorting function is a parameter, so that what \<^verbatim>\<open>Sort\<close> adds to it can be stated for
  any function in its place; the program's own is \<open>sort_Slice\<close>.\<close>

definition sort_in_place ::
  "(('a \<Rightarrow> 'a \<Rightarrow> bool) \<Rightarrow> 'a list \<Rightarrow> 'a list) \<Rightarrow> ('a \<Rightarrow> 'a \<Rightarrow> bool) \<Rightarrow> slice \<Rightarrow> 'a store \<Rightarrow> 'a store" where
  "sort_in_place srt lt s st =
     (if s_len s = 0 then st
      else st[s_ptr s := write_at (st ! s_ptr s) (s_off s) (srt lt (slice_view st s))])"

definition SortByDate_Sort_with ::
  "((Image \<Rightarrow> Image \<Rightarrow> bool) \<Rightarrow> Image list \<Rightarrow> Image list) \<Rightarrow> Image runtime \<Rightarrow> bool \<Rightarrow> slice \<Rightarrow>
   Image store \<Rightarrow> slice \<times> Image store" where
  "SortByDate_Sort_with srt rt ascending images st =
     (let (sorted', st1) = go_make rt (s_len images) st;
          st2 = go_copy sorted' images st1;
          st3 = sort_in_place srt (SortByDate_less ascending) sorted' st2
      in (sorted', st3))"


definition SortByDate_Sort ::
  "(64 word \<Rightarrow> 64 word) \<Rightarrow> Image runtime \<Rightarrow> bool \<Rightarrow> slice \<Rightarrow> Image store \<Rightarrow> slice \<times> Image store" where
  "SortByDate_Sort nxt = SortByDate_Sort_with (sort_Slice nxt)"





section \<open>Concrete inputs\<close>

text \<open>A runtime whose \<^verbatim>\<open>append\<close> doubles the capacity, an environment for the factory, and
  a base image whose \<open>Filters\<close> slice has spare capacity, as
  \<^verbatim>\<open>NewBasicImage("photo-1", nil, ImageMetadata{Filters: make([]string, 0, 2)})\<close> builds it.\<close>

definition rt_double :: "'a \<Rightarrow> 'a runtime" where
  "rt_double z = \<lparr>rt_zero = z, rt_grow = (\<lambda>c n. 2 * c)\<rparr>"

definition env0 :: env where
  "env0 = \<lparr>rand_byte = (\<lambda>i. 0), rand_source = 7, now_CapturedAt = 1000, now_UnixNano = 1700000000\<rparr>"

definition spare_base :: Image where
  "spare_base = NewBasicImage ''photo-1'' None
     (zero_metadata\<lparr>Filters := \<lparr>s_ptr = 0, s_off = 0, s_len = 0, s_cap = 2\<rparr>\<rparr>)"

definition spare_store :: "string store" where
  "spare_store = [[[], []]]"

text \<open>A bus with the registrations 1, 2, 1, 3 in this order, and callbacks that change
  the registrations during a delivery: observer 1 unregisters itself and registers 4,
  observer 2 unregisters 3. The private state counts the calls.\<close>

definition bus0 :: "EventBus \<times> nat store" where
  "bus0 = Register (rt_double 0) 3 (Register (rt_double 0) 1 (Register (rt_double 0) 2
            (Register (rt_double 0) 1 (NewEventBus (rt_double 0) []))))"

definition handler0 :: "(nat, string, nat) on_event" where
  "handler0 x e w = (if x = 1 then [Unreg 1, Reg 4] else if x = 2 then [Unreg 3] else [], w + 1)"

text \<open>A storage whose \<^verbatim>\<open>Save\<close> always fails, observers that count the events they
  get, and two facades over the bus above: one with the failing storage, one with the map
  adapter.\<close>

definition FailingStorage :: "unit Storage" where
  "FailingStorage = \<lparr>st_Save = (\<lambda>id' d s. (Some (Err ''disk full''), s)),
     st_Load = (\<lambda>id' s. ((None, Some ErrNotFound), s))\<rparr>"

definition counting :: "(nat, Event, nat) on_event" where
  "counting x ev w = ([], w + 1)"

definition failing_facade :: "((EventBus \<times> nat store) \<times> nat, unit) Facade" where
  "failing_facade = \<lparr>eventBus = EventBus_Subject (rt_double 0) counting, storage = FailingStorage\<rparr>"

definition map_facade :: "((EventBus \<times> nat store) \<times> nat, MapAdapter) Facade" where
  "map_facade = \<lparr>eventBus = EventBus_Subject (rt_double 0) counting, storage = MapAdapter_Storage\<rparr>"

definition world0 :: "'s \<Rightarrow> ((EventBus \<times> nat store) \<times> nat, 's) world" where
  "world0 s = \<lparr>w_bus = (bus0, 0), w_store = s, w_published = []\<rparr>"

text \<open>Thirteen photos in a gallery, the first twelve rated 2 and the last rated 1, in a
  store that holds their array; photos with three capture instants.\<close>

definition rated :: "string \<Rightarrow> int \<Rightarrow> Image" where
  "rated id' r = NewBasicImage id' None (zero_metadata\<lparr>Rating := r\<rparr>)"

definition taken :: "string \<Rightarrow> int \<Rightarrow> Image" where
  "taken id' t = NewBasicImage id' None (zero_metadata\<lparr>CapturedAt := t\<rparr>)"










section \<open>Slices: what \<^verbatim>\<open>append\<close> does to the store\<close>

lemma slice_view_length: "slice_ok st s \<Longrightarrow> length (slice_view st s) = s_len s"
  by (auto simp: slice_ok_def slice_view_def)

lemma go_append_cases:
  obtains (inplace) "s_len s + length xs \<le> s_cap s"
      "go_append rt s xs st = (s\<lparr>s_len := s_len s + length xs\<rparr>,
          if xs = [] then st else st[s_ptr s := write_at (st ! s_ptr s) (s_off s + s_len s) xs])"
  | (alloc) c where "s_cap s < s_len s + length xs" "s_len s + length xs \<le> c"
      "go_append rt s xs st = (\<lparr>s_ptr = length st, s_off = 0, s_len = s_len s + length xs, s_cap = c\<rparr>,
          st @ [slice_view st s @ xs @ replicate (c - (s_len s + length xs)) (rt_zero rt)])"
  by (cases "s_len s + length xs \<le> s_cap s") (auto simp: go_append_def Let_def)

lemma write_at_length: "k + length xs \<le> length arr \<Longrightarrow> length (write_at arr k xs) = length arr"
  by (simp add: write_at_def)

lemma write_at_take: "j \<le> k \<Longrightarrow> k \<le> length arr \<Longrightarrow> take j (write_at arr k xs) = take j arr"
  by (simp add: write_at_def min_def)

lemma write_at_view:
  "o' + l + length xs \<le> length arr \<Longrightarrow>
   take (l + length xs) (drop o' (write_at arr (o' + l) xs)) = take l (drop o' arr) @ xs"
  by (simp add: write_at_def take_drop add.commute)

lemma go_append_view:
  assumes "slice_ok st s" "go_append rt s xs st = (s', st')"
  shows "slice_view st' s' = slice_view st s @ xs"
proof (cases rule: go_append_cases [of s xs rt st])
  case inplace
  show ?thesis
  proof (cases "xs = []")
    case True
    with inplace assms show ?thesis by (auto simp: slice_view_def)
  next
    case False
    with inplace assms have c: "s_ptr s < length st" "s_off s + s_cap s \<le> length (st ! s_ptr s)"
      by (auto simp: slice_ok_def)
    with inplace assms False show ?thesis
      using write_at_view [of "s_off s" "s_len s" xs "st ! s_ptr s"]
      by (auto simp: slice_view_def)
  qed
next
  case (alloc c)
  with assms show ?thesis
    using slice_view_length [OF assms(1)]
    by (auto simp: slice_view_def)
qed

lemma go_append_ok:
  assumes "slice_ok st s" "go_append rt s xs st = (s', st')"
  shows "slice_ok st' s'"
proof (cases rule: go_append_cases [of s xs rt st])
  case inplace
  with assms show ?thesis
    by (auto simp: slice_ok_def write_at_length)
next
  case (alloc c)
  with assms show ?thesis
    using slice_view_length [OF assms(1)]
    by (auto simp: slice_ok_def)
qed

text \<open>A slice that was well-formed stays so, and a slice that ends before the
  written cells keeps its view.\<close>

lemma go_append_keeps_ok:
  assumes "slice_ok st s" "go_append rt s xs st = (s', st')" "slice_ok st t"
  shows "slice_ok st' t"
proof (cases rule: go_append_cases [of s xs rt st])
  case inplace
  with assms show ?thesis
    by (cases "s_ptr t = s_ptr s") (auto simp: slice_ok_def write_at_length)
next
  case (alloc c)
  with assms show ?thesis
    by (auto simp: slice_ok_def nth_append)
qed

lemma go_append_keeps_view:
  assumes "slice_ok st s" "go_append rt s xs st = (s', st')" "slice_ok st t"
    and "s_ptr t = s_ptr s \<longrightarrow> s_off t + s_len t \<le> s_off s + s_len s"
  shows "slice_view st' t = slice_view st t"
proof (cases rule: go_append_cases [of s xs rt st])
  case inplace
  show ?thesis
  proof (cases "xs = [] \<or> s_ptr t \<noteq> s_ptr s \<or> s_len t = 0")
    case True
    with inplace assms show ?thesis
      by (auto simp: slice_view_def)
  next
    case False
    with assms inplace have c: "s_ptr s < length st" "s_off t + s_len t \<le> s_off s + s_len s" "s_ptr t = s_ptr s"
      by (auto simp: slice_ok_def)
    from assms(1) inplace False have d: "s_off s + s_len s \<le> length (st ! s_ptr s)"
      by (auto simp: slice_ok_def)
    have "take (s_len t) (drop (s_off t) (write_at (st ! s_ptr s) (s_off s + s_len s) xs))
        = take (s_len t) (drop (s_off t) (take (s_off t + s_len t) (write_at (st ! s_ptr s) (s_off s + s_len s) xs)))"
      by (simp add: take_drop add.commute)
    also have "\<dots> = take (s_len t) (drop (s_off t) (take (s_off t + s_len t) (st ! s_ptr s)))"
      using c d by (simp add: write_at_take)
    also have "\<dots> = take (s_len t) (drop (s_off t) (st ! s_ptr s))"
      by (simp add: take_drop add.commute)
    finally show ?thesis using inplace False c assms(2)
      by (auto simp: slice_view_def)
  qed
next
  case (alloc c)
  with assms show ?thesis
    by (cases "s_len t = 0") (auto simp: slice_view_def slice_ok_def nth_append)
qed

lemma go_append_old_arrays:
  assumes "go_append rt s xs st = (s', st')"
  shows "length st \<le> length st'" and "p < length st \<Longrightarrow> p \<noteq> s_ptr s \<Longrightarrow> st' ! p = st ! p"
  using assms by (cases rule: go_append_cases [of s xs rt st]; auto simp: nth_append split: if_splits)+

text \<open>Appending to a full slice allocates.\<close>
lemma go_append_full:
  assumes "s_len s = s_cap s" "xs \<noteq> []" "go_append rt s xs st = (s', st')"
  shows "s_ptr s' = length st \<and> take (length st) st' = st"
  using assms by (auto simp: go_append_def Let_def)

text \<open>Appending to a slice whose array is new leaves the old arrays alone\<close>
lemma go_append_fresh:
  assumes "n \<le> s_ptr s" "n \<le> length st" "go_append rt s xs st = (s', st')"
  shows "n \<le> s_ptr s' \<and> take n st' = take n st"
  using assms by (cases rule: go_append_cases [of s xs rt st]) (auto split: if_splits)

lemma go_append_keeps_view2:
  assumes "slice_ok st s" "go_append rt s xs st = (s', st')" "slice_ok st t"
    and "s_len t = 0 \<or> s_ptr t \<noteq> s_ptr s \<or> s_off t + s_len t \<le> s_off s + s_len s"
  shows "slice_view st' t = slice_view st t"
proof (cases "s_len t = 0")
  case True
  then show ?thesis by (simp add: slice_view_def)
next
  case False
  with assms(4) have "s_ptr t = s_ptr s \<longrightarrow> s_off t + s_len t \<le> s_off s + s_len s" by auto
  from go_append_keeps_view [OF assms(1,2,3) this] show ?thesis .
qed

section \<open>Codec properties\<close>

lemma take2_eq:
  "2 \<le> length d \<Longrightarrow> (take 2 d = [a, b]) = (d ! 0 = a \<and> d ! 1 = b)"
  by (cases d; cases "tl d") auto

text \<open>
  C9. The built-in encoders are total: for every image, also one whose payload is nil
  or empty, the error is nil and the bytes are the magic header followed by the payload.
\<close>

theorem C9_encoders_total:
  "JPEGEncoder_Encode img = (Some ([0xFF, 0xD8, 0xFF, 0xE0] @ elems (Image_Data img)), None) \<and>
   PNGEncoder_Encode img =
     (Some ([0x89, 0x50, 0x4E, 0x47, 0x0D, 0x0A, 0x1A, 0x0A] @ elems (Image_Data img)), None) \<and>
   snd (JPEGEncoder_Encode img) = None \<and> snd (PNGEncoder_Encode img) = None \<and>
   (elems (Image_Data img) = [] \<longrightarrow>
      fst (JPEGEncoder_Encode img) = Some [0xFF, 0xD8, 0xFF, 0xE0] \<and>
      fst (PNGEncoder_Encode img) = Some [0x89, 0x50, 0x4E, 0x47, 0x0D, 0x0A, 0x1A, 0x0A])"
  by (simp add: JPEGEncoder_Encode_def PNGEncoder_Encode_def)

theorem C9_encoders_total_witness:
  "elems (Image_Data (BasicImage ''p'' None zero_metadata)) = [] \<and>
   JPEGEncoder_Encode (BasicImage ''p'' None zero_metadata) = (Some [0xFF, 0xD8, 0xFF, 0xE0], None) \<and>
   PNGEncoder_Encode (FilterDecorator (BasicImage ''p'' (Some []) zero_metadata) ''sepia'') =
     (Some [0x89, 0x50, 0x4E, 0x47, 0x0D, 0x0A, 0x1A, 0x0A], None)"
  using C9_encoders_total [of "BasicImage ''p'' None zero_metadata"]
        C9_encoders_total [of "FilterDecorator (BasicImage ''p'' (Some []) zero_metadata) ''sepia''"]
  by (simp add: elems_def)

text \<open>
  C7. Each decoder fails with its invalid-format error exactly when the input is shorter
  than the header (4 bytes for JPEG, 8 for PNG) or does not start with the magic prefix
  the decoder requires, the first two bytes of the header (FF D8 for JPEG, 89 50 for PNG);
  otherwise it succeeds, and the payload of the artifact is the input without its first
  4 (JPEG) or 8 (PNG) bytes.
\<close>

theorem C7_decode_fails_iff:
  "JPEGDecoder_Decode data =
     (if length (elems data) < 4 \<or> take 2 (elems data) \<noteq> [0xFF, 0xD8]
      then (None, Some (Err ''invalid JPEG data''))
      else (Some (BasicImage ''decoded-jpeg'' (Some (drop 4 (elems data)))
                   (zero_metadata\<lparr>ID := ''decoded-jpeg'', Format := ''JPEG'',
                      Width := 1920, Height := 1080\<rparr>)), None)) \<and>
   PNGDecoder_Decode data =
     (if length (elems data) < 8 \<or> take 2 (elems data) \<noteq> [0x89, 0x50]
      then (None, Some (Err ''invalid PNG data''))
      else (Some (BasicImage ''decoded-png'' (Some (drop 8 (elems data)))
                   (zero_metadata\<lparr>ID := ''decoded-png'', Format := ''PNG'',
                      Width := 1920, Height := 1080\<rparr>)), None))"
proof -
  have j: "4 \<le> length (elems data) \<Longrightarrow>
      (take 2 (elems data) = [0xFF, 0xD8]) = (elems data ! 0 = 0xFF \<and> elems data ! 1 = 0xD8)"
    by (rule take2_eq) simp
  have p: "8 \<le> length (elems data) \<Longrightarrow>
      (take 2 (elems data) = [0x89, 0x50]) = (elems data ! 0 = 0x89 \<and> elems data ! 1 = 0x50)"
    by (rule take2_eq) simp
  have "JPEGDecoder_Decode data =
     (if length (elems data) < 4 \<or> take 2 (elems data) \<noteq> [0xFF, 0xD8]
      then (None, Some (Err ''invalid JPEG data''))
      else (Some (BasicImage ''decoded-jpeg'' (Some (drop 4 (elems data)))
                   (zero_metadata\<lparr>ID := ''decoded-jpeg'', Format := ''JPEG'',
                      Width := 1920, Height := 1080\<rparr>)), None))"
  proof (cases "length (elems data) < 4")
    case True
    then show ?thesis by (simp add: JPEGDecoder_Decode_def)
  next
    case False
    then have "4 \<le> length (elems data)" by simp
    from j [OF this] False show ?thesis
      by (simp add: JPEGDecoder_Decode_def NewBasicImage_def zero_metadata_def)
  qed
  moreover have "PNGDecoder_Decode data =
     (if length (elems data) < 8 \<or> take 2 (elems data) \<noteq> [0x89, 0x50]
      then (None, Some (Err ''invalid PNG data''))
      else (Some (BasicImage ''decoded-png'' (Some (drop 8 (elems data)))
                   (zero_metadata\<lparr>ID := ''decoded-png'', Format := ''PNG'',
                      Width := 1920, Height := 1080\<rparr>)), None))"
  proof (cases "length (elems data) < 8")
    case True
    then show ?thesis by (simp add: PNGDecoder_Decode_def)
  next
    case False
    then have "8 \<le> length (elems data)" by simp
    from p [OF this] False show ?thesis
      by (simp add: PNGDecoder_Decode_def NewBasicImage_def zero_metadata_def)
  qed
  ultimately show ?thesis by simp
qed

text \<open>The decoders at concrete inputs: a short input, a wrong prefix, and an input
  that starts with the two required bytes (the rest of the header is not looked at).\<close>

theorem C7_decode_fails_iff_witness:
  "JPEGDecoder_Decode (Some [0xFF, 0xD8, 0xFF]) = (None, Some (Err ''invalid JPEG data'')) \<and>
   JPEGDecoder_Decode None = (None, Some (Err ''invalid JPEG data'')) \<and>
   JPEGDecoder_Decode (Some [0x00, 0xD8, 0xFF, 0xE0, 7]) = (None, Some (Err ''invalid JPEG data'')) \<and>
   JPEGDecoder_Decode (Some [0xFF, 0xD8, 0xFF, 0xE0, 7, 9]) =
     (Some (BasicImage ''decoded-jpeg'' (Some [7, 9])
        (zero_metadata\<lparr>ID := ''decoded-jpeg'', Format := ''JPEG'', Width := 1920, Height := 1080\<rparr>)),
      None) \<and>
   PNGDecoder_Decode (Some [0x89, 0x50, 0x4E, 0x47, 0x0D, 0x0A, 0x1A]) =
     (None, Some (Err ''invalid PNG data'')) \<and>
   PNGDecoder_Decode (Some [0x89, 0x51, 0x4E, 0x47, 0x0D, 0x0A, 0x1A, 0x0A]) =
     (None, Some (Err ''invalid PNG data'')) \<and>
   PNGDecoder_Decode (Some [0x89, 0x50, 0, 0, 0, 0, 0, 0, 5]) =
     (Some (BasicImage ''decoded-png'' (Some [5])
        (zero_metadata\<lparr>ID := ''decoded-png'', Format := ''PNG'', Width := 1920, Height := 1080\<rparr>)),
      None)"
  using C7_decode_fails_iff [of "Some [0xFF, 0xD8, 0xFF]"]
        C7_decode_fails_iff [of None]
        C7_decode_fails_iff [of "Some [0x00, 0xD8, 0xFF, 0xE0, 7]"]
        C7_decode_fails_iff [of "Some [0xFF, 0xD8, 0xFF, 0xE0, 7, 9]"]
        C7_decode_fails_iff [of "Some [0x89, 0x50, 0x4E, 0x47, 0x0D, 0x0A, 0x1A]"]
        C7_decode_fails_iff [of "Some [0x89, 0x51, 0x4E, 0x47, 0x0D, 0x0A, 0x1A, 0x0A]"]
        C7_decode_fails_iff [of "Some [0x89, 0x50, 0, 0, 0, 0, 0, 0, 5]"]
  by (simp add: elems_def)

text \<open>
  C10. Decoding what the encoder of the same format produced succeeds and returns an
  artifact with the payload of the encoded image, byte for byte (a nil payload comes
  back as an empty one); its identity is the constant \<open>decoded-jpeg\<close> or
  \<open>decoded-png\<close> whatever the identity of the image was, and its descriptor is the
  fixed one: format, width 1920, height 1080, every other field zero.
\<close>

theorem C10_encode_decode_roundtrip:
  "JPEGDecoder_Decode (fst (JPEGEncoder_Encode img)) =
     (Some (BasicImage ''decoded-jpeg'' (Some (elems (Image_Data img)))
        (zero_metadata\<lparr>ID := ''decoded-jpeg'', Format := ''JPEG'', Width := 1920, Height := 1080\<rparr>)),
      None) \<and>
   PNGDecoder_Decode (fst (PNGEncoder_Encode img)) =
     (Some (BasicImage ''decoded-png'' (Some (elems (Image_Data img)))
        (zero_metadata\<lparr>ID := ''decoded-png'', Format := ''PNG'', Width := 1920, Height := 1080\<rparr>)),
      None)"
  by (simp add: JPEGDecoder_Decode_def JPEGEncoder_Encode_def PNGDecoder_Decode_def
      PNGEncoder_Encode_def NewBasicImage_def zero_metadata_def elems_def)

theorem C10_encode_decode_roundtrip_witness:
  "JPEGDecoder_Decode (fst (JPEGEncoder_Encode (BasicImage ''photo-1'' (Some [1, 2, 3]) zero_metadata))) =
     (Some (BasicImage ''decoded-jpeg'' (Some [1, 2, 3])
        (zero_metadata\<lparr>ID := ''decoded-jpeg'', Format := ''JPEG'', Width := 1920, Height := 1080\<rparr>)),
      None) \<and>
   PNGDecoder_Decode (fst (PNGEncoder_Encode (BasicImage ''photo-1'' None zero_metadata))) =
     (Some (BasicImage ''decoded-png'' (Some [])
        (zero_metadata\<lparr>ID := ''decoded-png'', Format := ''PNG'', Width := 1920, Height := 1080\<rparr>)),
      None)"
  using C10_encode_decode_roundtrip [of "BasicImage ''photo-1'' (Some [1, 2, 3]) zero_metadata"]
        C10_encode_decode_roundtrip [of "BasicImage ''photo-1'' None zero_metadata"]
  by (simp add: elems_def)

section \<open>The decorator chain\<close>

lemma Image_Metadata_read:
  assumes "slice_ok st (Filters (base_metadata w))" "Image_Metadata rt w st = (meta, st')"
  shows "slice_ok st' (Filters meta) \<and>
         slice_view st' (Filters meta) = slice_view st (Filters (base_metadata w)) @ filters_of w \<and>
         slice_ok st' (Filters (base_metadata w)) \<and>
         slice_view st' (Filters (base_metadata w)) = slice_view st (Filters (base_metadata w)) \<and>
         length st \<le> length st' \<and>
         meta\<lparr>Filters := Filters (base_metadata w)\<rparr> = base_metadata w \<and>
         (s_ptr (Filters meta) = s_ptr (Filters (base_metadata w)) \<and>
          s_off (Filters meta) = s_off (Filters (base_metadata w)) \<and>
          s_len (Filters (base_metadata w)) \<le> s_len (Filters meta) \<or>
          length st \<le> s_ptr (Filters meta))"
  using assms
proof (induction w arbitrary: meta st')
  case (BasicImage i d m)
  then show ?case by auto
next
  case (FilterDecorator w f)
  let ?b = "Filters (base_metadata w)"
  obtain meta1 st1 where r1: "Image_Metadata rt w st = (meta1, st1)" by fastforce
  obtain fs st2 where a: "go_append rt (Filters meta1) [f] st1 = (fs, st2)" by fastforce
  from FilterDecorator.prems r1 a have res: "meta = meta1\<lparr>Filters := fs\<rparr>" "st' = st2"
    by auto
  from FilterDecorator.prems have okb: "slice_ok st ?b" by simp
  note ih = FilterDecorator.IH [OF okb r1]
  from ih have ok1: "slice_ok st1 (Filters meta1)" by (rule conjunct1)
  from ih have v1: "slice_view st1 (Filters meta1) = slice_view st ?b @ filters_of w" by blast
  from ih have okb1: "slice_ok st1 ?b" by blast
  from ih have vb1: "slice_view st1 ?b = slice_view st ?b" by blast
  from ih have len1: "length st \<le> length st1" by blast
  from ih have rest1: "meta1\<lparr>Filters := ?b\<rparr> = base_metadata w" by blast
  from ih have where1: "s_ptr (Filters meta1) = s_ptr ?b \<and> s_off (Filters meta1) = s_off ?b \<and>
      s_len ?b \<le> s_len (Filters meta1) \<or> length st \<le> s_ptr (Filters meta1)" by blast
  have pos: "s_len ?b = 0 \<or> s_ptr ?b \<noteq> s_ptr (Filters meta1) \<or>
      s_off ?b + s_len ?b \<le> s_off (Filters meta1) + s_len (Filters meta1)"
  proof (cases "s_len ?b = 0")
    case True
    then show ?thesis by simp
  next
    case False
    with okb have "s_ptr ?b < length st" by (auto simp: slice_ok_def)
    with where1 show ?thesis by linarith
  qed
  have v: "slice_view st2 fs = slice_view st1 (Filters meta1) @ [f]"
    by (rule go_append_view [OF ok1 a])
  have okfs: "slice_ok st2 fs" by (rule go_append_ok [OF ok1 a])
  have okb2: "slice_ok st2 ?b" by (rule go_append_keeps_ok [OF ok1 a okb1])
  have vb: "slice_view st2 ?b = slice_view st1 ?b"
    by (rule go_append_keeps_view2 [OF ok1 a okb1 pos])
  have len: "length st1 \<le> length st2" by (rule go_append_old_arrays(1) [OF a])
  have where': "s_ptr fs = s_ptr ?b \<and> s_off fs = s_off ?b \<and> s_len ?b \<le> s_len fs \<or> length st \<le> s_ptr fs"
  proof (cases rule: go_append_cases [of "Filters meta1" "[f]" rt st1])
    case inplace
    with a have "fs = (Filters meta1)\<lparr>s_len := s_len (Filters meta1) + length [f]\<rparr>" by simp
    with where1 show ?thesis by auto
  next
    case (alloc c)
    with a have "s_ptr fs = length st1" by auto
    with len1 show ?thesis by simp
  qed
  have rest: "meta1\<lparr>Filters := fs\<rparr>\<lparr>Filters := ?b\<rparr> = base_metadata w"
    using rest1 by simp
  show ?case
    unfolding res base_metadata.simps filters_of.simps
    using okfs v v1 okb2 vb vb1 len len1 rest where' by simp
qed

lemma Image_Metadata_fresh:
  assumes "s_len (Filters (base_metadata w)) = s_cap (Filters (base_metadata w))"
    and "Image_Metadata rt (FilterDecorator w f) st = (meta, st')"
  shows "length st \<le> s_ptr (Filters meta) \<and> take (length st) st' = st"
  using assms
proof (induction w arbitrary: f meta st')
  case (BasicImage i d m)
  obtain fs st2 where a: "go_append rt (Filters m) [f] st = (fs, st2)" by fastforce
  with BasicImage have "meta = m\<lparr>Filters := fs\<rparr>" "st' = st2" by auto
  with go_append_full [OF _ _ a] BasicImage show ?case by auto
next
  case (FilterDecorator w g)
  obtain meta1 st1 where r1: "Image_Metadata rt (FilterDecorator w g) st = (meta1, st1)" by fastforce
  obtain fs st2 where a: "go_append rt (Filters meta1) [f] st1 = (fs, st2)" by fastforce
  from FilterDecorator.prems have full: "s_len (Filters (base_metadata w)) = s_cap (Filters (base_metadata w))"
    by simp
  note ih = FilterDecorator.IH [OF full r1]
  then have l: "length st \<le> length st1"
    by (metis length_take min.absorb_iff2 nat_le_linear)
  from FilterDecorator.prems(2) r1 a have res: "meta = meta1\<lparr>Filters := fs\<rparr>" "st' = st2"
    by (auto simp del: Image_Metadata.simps simp add: Image_Metadata.simps(2) [of rt "FilterDecorator w g" f])
  from go_append_fresh [OF _ l a] ih res show ?case by auto
qed

lemma applyFilters_ok:
  "[] \<notin> set fs \<Longrightarrow>
   \<exists>w. applyFilters p fs = Inr w \<and> base_metadata w = base_metadata p \<and> base_of w = base_of p \<and>
       filters_of w = filters_of p @ fs"
proof (induction fs arbitrary: p)
  case Nil
  then show ?case by simp
next
  case (Cons a fs)
  then have "[] \<notin> set fs" "a \<noteq> []" by auto
  from Cons.IH [OF this(1), of "FilterDecorator p a"] this(2)
  show ?case by (auto simp: NewFilterDecorator_def)
qed

lemma applyFilters_panic:
  "[] \<in> set fs \<Longrightarrow> applyFilters p fs = Inl ''filter cannot be empty''"
  by (induction fs arbitrary: p) (auto simp: NewFilterDecorator_def)

lemma CreatePhoto_base [simp]:
  "base_metadata (CreatePhoto e ty) = \<lparr>ID = ''photo-'' @ show_int (now_UnixNano e), Width = defaultWidth, Height = defaultHeight,
            CapturedAt = now_CapturedAt e, Rating = rand_Intn e maxRating + minRating,
            Filters = empty_slice, Format = defaultFormat,
            Description = getDescription ty\<rparr>"
  "filters_of (CreatePhoto e ty) = []"
  "base_of (CreatePhoto e ty) = CreatePhoto e ty"
  by (simp_all add: CreatePhoto_def NewBasicImage_def Let_def)

lemma empty_slice_ok [simp]: "slice_ok st empty_slice" "slice_view st empty_slice = []"
  by (simp_all add: slice_ok_def empty_slice_def slice_view_def)

text \<open>
  C2 (as amended). For every base artifact created by the factory and every sequence of
  non-empty transformation names, the pipeline's fold returns a chain of as many
  decorators around that base, and reading the final wrapper's descriptor yields a history
  of exactly those names in application order, whatever the store and the growth policy;
  for the empty sequence the artifact stays unwrapped and its history is empty.
\<close>

theorem C2_history_in_order:
  assumes "[] \<notin> set names"
  shows "\<exists>w. applyFilters (CreatePhoto e photoType) names = Inr w \<and>
             base_of w = CreatePhoto e photoType \<and> filters_of w = names \<and>
             read_history rt w st = names \<and>
             (names = [] \<longrightarrow> w = CreatePhoto e photoType \<and>
                read_history rt (CreatePhoto e photoType) st = [])"
proof -
  from applyFilters_ok [OF assms, of "CreatePhoto e photoType"]
  obtain w where w: "applyFilters (CreatePhoto e photoType) names = Inr w"
    "base_metadata w = base_metadata (CreatePhoto e photoType)"
    "base_of w = CreatePhoto e photoType" "filters_of w = names"
    by auto
  obtain meta st' where r: "Image_Metadata rt w st = (meta, st')" by fastforce
  have "slice_ok st (Filters (base_metadata w))" using w(2) by simp
  from Image_Metadata_read [OF this r] w(2,4)
  have "slice_view st' (Filters meta) = names" by simp
  with r have h: "read_history rt w st = names" by (simp add: read_history_def)
  have "names = [] \<longrightarrow> w = CreatePhoto e photoType" using w(1) by auto
  with w h show ?thesis by auto
qed

theorem C2_history_in_order_witness:
  "[] \<notin> set [''grayscale'', ''sepia''] \<and>
   applyFilters (CreatePhoto env0 ''portrait'') [''grayscale'', ''sepia''] =
     Inr (FilterDecorator (FilterDecorator (CreatePhoto env0 ''portrait'') ''grayscale'') ''sepia'') \<and>
   read_history (rt_double [])
     (FilterDecorator (FilterDecorator (CreatePhoto env0 ''portrait'') ''grayscale'') ''sepia'') [] =
     [''grayscale'', ''sepia''] \<and>
   applyFilters (CreatePhoto env0 ''portrait'') [] = Inr (CreatePhoto env0 ''portrait'') \<and>
   read_history (rt_double []) (CreatePhoto env0 ''portrait'') [] = []"
  using C2_history_in_order [of "[''grayscale'', ''sepia'']" env0 "''portrait''" "rt_double []" "[]"]
        C2_history_in_order [of "[]" env0 "''portrait''" "rt_double []" "[]"]
  by (auto simp: NewFilterDecorator_def)

text \<open>
  The claim as stated, for every sequence of names, fails where a name is empty: the guard
  of \<^verbatim>\<open>NewFilterDecorator\<close> panics, and the fold has no final wrapper to read.
\<close>

theorem C2_counterexample:
  "applyFilters (CreatePhoto env0 ''portrait'') [''grayscale'', []] = Inl ''filter cannot be empty''"
  by (simp add: NewFilterDecorator_def)

text \<open>
  C4 (as amended). Let \<open>w\<close> be a node of a chain over a base whose history slice is
  well-formed, read in the store \<open>st\<close>. The read returns the history of the base followed
  by the filters of \<open>w\<close>; afterwards every node \<open>v\<close> over the same base, and the base
  itself, reads the same history as before (wrapping itself is the constructor and touches
  no store). If moreover the history slice of the base is full (length = capacity, as for
  every base the factory or a decoder builds) and \<open>w\<close> is a wrapper, the returned history
  lies in an array allocated by this read and no array that existed before has changed: it
  shares no state with any earlier view.
\<close>

theorem C4_reads_do_not_alias:
  assumes "slice_ok st (Filters (base_metadata w))"
    and "base_of v = base_of w"
    and "Image_Metadata rt w st = (meta, st')"
  shows "slice_view st' (Filters meta) = slice_view st (Filters (base_metadata w)) @ filters_of w \<and>
         read_history rt v st' = read_history rt v st \<and>
         read_history rt (base_of w) st' = read_history rt (base_of w) st \<and>
         (s_len (Filters (base_metadata w)) = s_cap (Filters (base_metadata w)) \<and> w \<noteq> base_of w \<longrightarrow>
            length st \<le> s_ptr (Filters meta) \<and> take (length st) st' = st)"
proof -
  have bm: "base_metadata x = base_metadata (base_of x)" for x
    by (induction x) auto
  have bb: "base_of (base_of x) = base_of x" for x
    by (induction x) auto
  let ?b = "Filters (base_metadata w)"
  note rd = Image_Metadata_read [OF assms(1,3)]
  from rd have okb: "slice_ok st' ?b" and vb: "slice_view st' ?b = slice_view st ?b" by blast+
  have same: "read_history rt x st' = read_history rt x st" if x: "base_of x = base_of w" for x
  proof -
    from x have bx: "base_metadata x = base_metadata w" using bm [of x] bm [of w] by simp
    obtain m1 s1 where r1: "Image_Metadata rt x st = (m1, s1)" by fastforce
    obtain m2 s2 where r2: "Image_Metadata rt x st' = (m2, s2)" by fastforce
    from Image_Metadata_read [OF _ r1] assms(1) bx
    have "slice_view s1 (Filters m1) = slice_view st ?b @ filters_of x" by simp
    moreover from Image_Metadata_read [OF _ r2] okb bx
    have "slice_view s2 (Filters m2) = slice_view st' ?b @ filters_of x" by simp
    ultimately show ?thesis using r1 r2 vb by (simp add: read_history_def)
  qed
  have fresh: "length st \<le> s_ptr (Filters meta) \<and> take (length st) st' = st"
    if "s_len ?b = s_cap ?b" "w \<noteq> base_of w"
  proof (cases w)
    case (BasicImage i d m)
    with that show ?thesis by simp
  next
    case (FilterDecorator u f)
    with that assms(3) Image_Metadata_fresh [of u rt f st meta st'] show ?thesis by simp
  qed
  from rd same [OF assms(2)] same [OF bb] fresh show ?thesis by blast
qed

theorem C4_reads_do_not_alias_witness:
  "slice_ok [[''x'']] (Filters (base_metadata (FilterDecorator (CreatePhoto env0 ''portrait'') ''grayscale''))) \<and>
   base_of (FilterDecorator (CreatePhoto env0 ''portrait'') ''sepia'') =
     base_of (FilterDecorator (CreatePhoto env0 ''portrait'') ''grayscale'') \<and>
   Image_Metadata (rt_double []) (FilterDecorator (CreatePhoto env0 ''portrait'') ''grayscale'') [[''x'']] =
     ((base_metadata (CreatePhoto env0 ''portrait''))\<lparr>Filters := \<lparr>s_ptr = 1, s_off = 0, s_len = 1, s_cap = 1\<rparr>\<rparr>,
      [[''x''], [''grayscale'']]) \<and>
   slice_view [[''x''], [''grayscale'']] \<lparr>s_ptr = 1, s_off = 0, s_len = 1, s_cap = 1\<rparr> = [''grayscale''] \<and>
   read_history (rt_double []) (FilterDecorator (CreatePhoto env0 ''portrait'') ''sepia'')
     [[''x''], [''grayscale'']] =
   read_history (rt_double []) (FilterDecorator (CreatePhoto env0 ''portrait'') ''sepia'') [[''x'']] \<and>
   take (length [[''x'']]) [[''x''], [''grayscale'']] = [[''x'']]"
proof -
  have ok: "slice_ok [[''x'']] (Filters (base_metadata (FilterDecorator (CreatePhoto env0 ''portrait'') ''grayscale'')))"
    by simp
  have same: "base_of (FilterDecorator (CreatePhoto env0 ''portrait'') ''sepia'') =
     base_of (FilterDecorator (CreatePhoto env0 ''portrait'') ''grayscale'')"
    by simp
  have rd: "Image_Metadata (rt_double []) (FilterDecorator (CreatePhoto env0 ''portrait'') ''grayscale'') [[''x'']] =
     ((base_metadata (CreatePhoto env0 ''portrait''))\<lparr>Filters := \<lparr>s_ptr = 1, s_off = 0, s_len = 1, s_cap = 1\<rparr>\<rparr>,
      [[''x''], [''grayscale'']])"
    by (simp add: CreatePhoto_def NewBasicImage_def Let_def go_append_def empty_slice_def
        slice_view_def rt_double_def)
  from C4_reads_do_not_alias [OF ok same rd] ok same rd show ?thesis
    by simp
qed

text \<open>
  The claim as stated, for every read, fails over a base whose history slice has spare
  capacity: the decorator appends in place, so two wrappers around that base write the same
  cell, and the descriptor read through the first shows the filter of the second once the
  second has been read.
\<close>

theorem C4_counterexample:
  "slice_view (snd (Image_Metadata (rt_double []) (FilterDecorator spare_base ''grayscale'') spare_store))
     (Filters (fst (Image_Metadata (rt_double []) (FilterDecorator spare_base ''grayscale'') spare_store)))
     = [''grayscale''] \<and>
   slice_view
     (snd (Image_Metadata (rt_double []) (FilterDecorator spare_base ''sepia'')
        (snd (Image_Metadata (rt_double []) (FilterDecorator spare_base ''grayscale'') spare_store))))
     (Filters (fst (Image_Metadata (rt_double []) (FilterDecorator spare_base ''grayscale'') spare_store)))
     = [''sepia'']"
  by (simp add: spare_base_def spare_store_def NewBasicImage_def zero_metadata_def go_append_def
      slice_view_def write_at_def rt_double_def)

section \<open>The event bus: registration and delivery\<close>

declare Unregister_loop.simps [simp del] Notify_loop.simps [simp del]

lemma slice_to_props:
  assumes "slice_ok st s" "j \<le> s_len s"
  shows "slice_ok st (slice_to s j)" "slice_view st (slice_to s j) = take j (slice_view st s)"
  using assms by (auto simp: slice_ok_def slice_to_def slice_view_def min_def)

lemma slice_from_props:
  assumes "slice_ok st s" "i \<le> s_len s"
  shows "slice_view st (slice_from s i) = drop i (slice_view st s)"
  using assms by (auto simp: slice_ok_def slice_from_def slice_view_def drop_take add.commute)

lemma slice_view_nth:
  assumes "slice_ok st s" "i < s_len s"
  shows "st ! s_ptr s ! (s_off s + i) = slice_view st s ! i"
  using assms by (auto simp: slice_ok_def slice_view_def)

lemma Register_view:
  assumes "bus_ok bst"
  shows "bus_ok (Register rt x bst) \<and> bus_view (Register rt x bst) = bus_view bst @ [x]"
proof -
  obtain b st where bst: "bst = (b, st)" by (cases bst)
  obtain s st' where a: "go_append rt (observers b) [x] st = (s, st')" by fastforce
  from assms bst have ok: "slice_ok st (observers b)" by (simp add: bus_ok_def)
  from go_append_ok [OF ok a] go_append_view [OF ok a] bst a show ?thesis
    by (simp add: Register_def bus_ok_def bus_view_def)
qed

lemma remove1_drop_nth:
  "i < length xs \<Longrightarrow> xs ! i = x \<Longrightarrow> remove1 x (drop i xs) = drop (Suc i) xs"
  by (metis Cons_nth_drop_Suc remove1.simps(2))

lemma remove1_drop_nth_neq:
  "i < length xs \<Longrightarrow> xs ! i \<noteq> x \<Longrightarrow> take i xs @ remove1 x (drop i xs) = take (Suc i) xs @ remove1 x (drop (Suc i) xs)"
  by (metis Cons_nth_drop_Suc append.assoc append_Cons append_Nil remove1.simps(2) take_Suc_conv_app_nth)

lemma Unregister_loop_view:
  assumes "slice_ok st (observers b)" "rng = observers b" "i \<le> s_len rng"
  shows "bus_ok (Unregister_loop rt x rng i (b, st)) \<and>
         bus_view (Unregister_loop rt x rng i (b, st)) =
           take i (slice_view st (observers b)) @ remove1 x (drop i (slice_view st (observers b)))"
  using assms
proof (induction rt x rng i "(b, st)" rule: Unregister_loop.induct)
  case (1 rt x rng i)
  let ?v = "slice_view st (observers b)"
  have lv: "length ?v = s_len (observers b)" using 1 by (simp add: slice_view_length)
  show ?case
  proof (cases "i < s_len rng")
    case False
    with 1 lv have "drop i ?v = []" "take i ?v = ?v" by auto
    moreover from False have "Unregister_loop rt x rng i (b, st) = (b, st)"
      by (subst Unregister_loop.simps) simp
    ultimately show ?thesis using "1.prems"(1)
      by (simp add: bus_ok_def bus_view_def)
  next
    case True
    with 1 have nth: "st ! s_ptr rng ! (s_off rng + i) = ?v ! i"
      by (simp add: slice_view_nth)
    show ?thesis
    proof (cases "?v ! i = x")
      case hit: True
      obtain s st' where a: "go_append rt (slice_to (observers b) i)
             (slice_view st (slice_from (observers b) (i + 1))) st = (s, st')" by fastforce
      from 1 True have i: "i \<le> s_len (observers b)" "i + 1 \<le> s_len (observers b)" by auto
      note t = slice_to_props [OF "1.prems"(1) i(1)]
      note f = slice_from_props [OF "1.prems"(1) i(2)]
      from go_append_ok [OF t(1) a] go_append_view [OF t(1) a] t(2) f
      have "slice_ok st' s" "slice_view st' s = take i ?v @ drop (Suc i) ?v" by auto
      moreover have "remove1 x (drop i ?v) = drop (Suc i) ?v"
        using remove1_drop_nth [of i ?v x] hit True 1 lv by simp
      moreover from True nth hit a "1.prems"(2)
      have "Unregister_loop rt x rng i (b, st) = (b\<lparr>observers := s\<rparr>, st')"
        by (subst Unregister_loop.simps) simp
      ultimately show ?thesis
        by (simp add: bus_ok_def bus_view_def)
    next
      case miss: False
      from True 1 have "i + 1 \<le> s_len rng" by simp
      from "1.hyps" [OF True refl _ "1.prems"(1,2) this] miss nth
      have "bus_ok (Unregister_loop rt x rng (i + 1) (b, st)) \<and>
         bus_view (Unregister_loop rt x rng (i + 1) (b, st)) =
           take (i + 1) ?v @ remove1 x (drop (i + 1) ?v)" by simp
      moreover have "take i ?v @ remove1 x (drop i ?v) = take (Suc i) ?v @ remove1 x (drop (Suc i) ?v)"
        using remove1_drop_nth_neq [of i ?v x] miss True 1 lv by simp
      moreover from True nth miss
      have "Unregister_loop rt x rng i (b, st) = Unregister_loop rt x rng (i + 1) (b, st)"
        by (subst Unregister_loop.simps) simp
      ultimately show ?thesis
        by simp
    qed
  qed
qed

lemma Unregister_view:
  assumes "bus_ok bst"
  shows "bus_ok (Unregister rt x bst) \<and> bus_view (Unregister rt x bst) = remove1 x (bus_view bst)"
proof -
  obtain b st where bst: "bst = (b, st)" by (cases bst)
  from assms bst have ok: "slice_ok st (observers b)" by (simp add: bus_ok_def)
  from Unregister_loop_view [OF ok refl, of 0 rt x] bst show ?thesis
    by (simp add: Unregister_def bus_view_def)
qed

lemma go_append_avoids:
  assumes "p < length st" "s_cap s = 0 \<or> s_ptr s \<noteq> p" "go_append rt s xs st = (s', st')"
  shows "st' ! p = st ! p \<and> p < length st' \<and> (s_cap s' = 0 \<or> s_ptr s' \<noteq> p)"
proof (cases rule: go_append_cases [of s xs rt st])
  case inplace
  with assms show ?thesis by (cases "xs = []") auto
next
  case (alloc c)
  with assms show ?thesis by (auto simp: nth_append)
qed

lemma Register_avoids:
  assumes "avoids p bst"
  shows "avoids p (Register rt x bst) \<and> snd (Register rt x bst) ! p = snd bst ! p"
proof -
  obtain b st where bst: "bst = (b, st)" by (cases bst)
  obtain s st' where a: "go_append rt (observers b) [x] st = (s, st')" by fastforce
  from assms bst have "p < length st" "s_cap (observers b) = 0 \<or> s_ptr (observers b) \<noteq> p"
    by (auto simp: avoids_def)
  from go_append_avoids [OF this a] bst a show ?thesis
    by (simp add: Register_def avoids_def)
qed

lemma Unregister_loop_avoids:
  assumes "avoids p (b, st)"
  shows "avoids p (Unregister_loop rt x rng i (b, st)) \<and>
         snd (Unregister_loop rt x rng i (b, st)) ! p = st ! p"
  using assms
proof (induction rt x rng i "(b, st)" rule: Unregister_loop.induct)
  case (1 rt x rng i)
  show ?case
  proof (cases "i < s_len rng")
    case False
    then have "Unregister_loop rt x rng i (b, st) = (b, st)"
      by (subst Unregister_loop.simps) simp
    with 1 show ?thesis by simp
  next
    case True
    show ?thesis
    proof (cases "st ! s_ptr rng ! (s_off rng + i) = x")
      case hit: True
      obtain s st' where a: "go_append rt (slice_to (observers b) i)
             (slice_view st (slice_from (observers b) (i + 1))) st = (s, st')" by fastforce
      from "1.prems" have "p < length st"
        "s_cap (slice_to (observers b) i) = 0 \<or> s_ptr (slice_to (observers b) i) \<noteq> p"
        by (auto simp: avoids_def slice_to_def)
      note g = go_append_avoids [OF this a]
      from True hit a have "Unregister_loop rt x rng i (b, st) = (b\<lparr>observers := s\<rparr>, st')"
        by (subst Unregister_loop.simps) simp
      with g show ?thesis by (simp add: avoids_def)
    next
      case miss: False
      with True have "Unregister_loop rt x rng i (b, st) = Unregister_loop rt x rng (i + 1) (b, st)"
        by (subst Unregister_loop.simps) simp
      with "1.hyps" [OF True refl _ "1.prems"] miss show ?thesis by simp
    qed
  qed
qed

lemma run_op_avoids:
  assumes "avoids p bst"
  shows "avoids p (run_op rt x bst) \<and> snd (run_op rt x bst) ! p = snd bst ! p"
proof (cases x)
  case (Reg y)
  with Register_avoids [OF assms] show ?thesis by simp
next
  case (Unreg y)
  obtain b st where "bst = (b, st)" by (cases bst)
  with Unregister_loop_avoids [of p b st rt y "observers b" 0] assms Unreg show ?thesis
    by (simp add: Unregister_def)
qed

lemma run_op_ok:
  assumes "bus_ok bst" shows "bus_ok (run_op rt x bst)"
  using Register_view [OF assms] Unregister_view [OF assms] by (cases x) simp_all

lemma run_ops_avoids:
  assumes "avoids p bst" "bus_ok bst"
  shows "avoids p (run_ops rt xs bst) \<and> snd (run_ops rt xs bst) ! p = snd bst ! p \<and> bus_ok (run_ops rt xs bst)"
  using assms
proof (induction xs arbitrary: bst)
  case Nil
  then show ?case by simp
next
  case (Cons x xs)
  from run_op_avoids [OF Cons.prems(1), of rt x] run_op_ok [OF Cons.prems(2), of rt x]
  have a: "avoids p (run_op rt x bst)" and b: "snd (run_op rt x bst) ! p = snd bst ! p"
    and c: "bus_ok (run_op rt x bst)" by auto
  from Cons.IH [OF a c] b show ?case by simp
qed

lemma Notify_loop_calls:
  assumes "avoids p bst" "bus_ok bst" "s_ptr rng = p" "s_off rng = 0" "s_len rng = length V"
    "snd bst ! p = V" "i \<le> length V"
  shows "snd (Notify_loop rt OnEvent event rng i (bst, w) calls) =
           calls @ map (\<lambda>x. (x, event)) (drop i V) \<and>
         bus_ok (fst (fst (Notify_loop rt OnEvent event rng i (bst, w) calls)))"
  using assms
proof (induction rt OnEvent event rng i "(bst, w)" calls arbitrary: bst w rule: Notify_loop.induct)
  case (1 rt OnEvent event rng i bst w calls)
  show ?case
  proof (cases "i < s_len rng")
    case False
    then have "Notify_loop rt OnEvent event rng i (bst, w) calls = ((bst, w), calls)"
      by (subst Notify_loop.simps) simp
    with False 1 show ?thesis by simp
  next
    case True
    let ?x = "snd bst ! s_ptr rng ! (s_off rng + i)"
    obtain ops w' where h: "OnEvent ?x event w = (ops, w')" by fastforce
    from True h have unf: "Notify_loop rt OnEvent event rng i (bst, w) calls =
        Notify_loop rt OnEvent event rng (i + 1) (run_ops rt ops bst, w') (calls @ [(?x, event)])"
      by (subst Notify_loop.simps) simp
    from run_ops_avoids [OF "1.prems"(1,2), of rt ops]
    have a: "avoids p (run_ops rt ops bst)" and b: "snd (run_ops rt ops bst) ! p = V"
      and c: "bus_ok (run_ops rt ops bst)"
      using "1.prems"(6) by auto
    from True "1.prems" have i: "i + 1 \<le> length V" by simp
    from True "1.prems" have x: "?x = V ! i" by simp
    from True "1.prems" have d: "drop i V = V ! i # drop (i + 1) V"
      by (simp add: Cons_nth_drop_Suc)
    from "1.hyps" [OF True refl h [symmetric] refl a c "1.prems"(3,4,5) b i] unf x d
    show ?thesis by simp
  qed
qed

lemma Notify_calls:
  assumes "bus_ok bst"
  shows "snd (Notify rt OnEvent event (bst, w)) = map (\<lambda>x. (x, event)) (bus_view bst) \<and>
         bus_ok (fst (fst (Notify rt OnEvent event (bst, w))))"
proof -
  obtain b st where bst: "bst = (b, st)" by (cases bst)
  let ?n = "s_len (observers b)"
  let ?V = "slice_view st (observers b)"
  let ?sn = "\<lparr>s_ptr = length st, s_off = 0, s_len = ?n, s_cap = ?n\<rparr>"
  let ?st1 = "st @ [replicate ?n (rt_zero rt)]"
  let ?st2 = "go_copy ?sn (observers b) ?st1"
  from assms bst have ok: "slice_ok st (observers b)" by (simp add: bus_ok_def)
  then have lv: "length ?V = ?n" by (rule slice_view_length)
  have v1: "slice_view ?st1 (observers b) = ?V"
    using ok by (cases "s_len (observers b) = 0") (auto simp: slice_view_def slice_ok_def nth_append)
  have st2: "?st2 = st @ [?V]"
  proof (cases "?n = 0")
    case True
    with lv show ?thesis by (simp add: go_copy_def)
  next
    case False
    with lv v1 show ?thesis by (simp add: go_copy_def write_at_def)
  qed
  have N: "Notify rt OnEvent event (bst, w) = Notify_loop rt OnEvent event ?sn 0 ((b, st @ [?V]), w) []"
    using bst st2 by (simp add: Notify_def go_make_def)
  have av: "avoids (length st) (b, st @ [?V])"
    using ok by (auto simp: avoids_def slice_ok_def)
  have ok2: "bus_ok (b, st @ [?V])"
    using ok by (auto simp: bus_ok_def slice_ok_def nth_append)
  from Notify_loop_calls [OF av ok2, of ?sn ?V 0 rt OnEvent event w "[]"] lv N bst
  show ?thesis by (simp add: bus_view_def)
qed

lemma Unregister_loop_absent:
  assumes "slice_ok st (observers b)" "rng = observers b"
    and "\<forall>j. i \<le> j \<and> j < s_len rng \<longrightarrow> slice_view st rng ! j \<noteq> x"
  shows "Unregister_loop rt x rng i (b, st) = (b, st)"
  using assms
proof (induction rt x rng i "(b, st)" rule: Unregister_loop.induct)
  case (1 rt x rng i)
  show ?case
  proof (cases "i < s_len rng")
    case False
    then show ?thesis by (subst Unregister_loop.simps) simp
  next
    case True
    with 1 have "st ! s_ptr rng ! (s_off rng + i) = slice_view st rng ! i"
      by (simp add: slice_view_nth)
    with "1.prems"(3) True have miss: "st ! s_ptr rng ! (s_off rng + i) \<noteq> x" by simp
    with True have "Unregister_loop rt x rng i (b, st) = Unregister_loop rt x rng (i + 1) (b, st)"
      by (subst Unregister_loop.simps) simp
    moreover from "1.prems"(3) have "\<forall>j. i + 1 \<le> j \<and> j < s_len rng \<longrightarrow> slice_view st rng ! j \<noteq> x"
      by simp
    ultimately show ?thesis
      using "1.hyps" [OF True refl miss "1.prems"(1,2)] by simp
  qed
qed

lemma Unregister_absent:
  assumes "bus_ok bst" "x \<notin> set (bus_view bst)"
  shows "Unregister rt x bst = bst"
proof -
  obtain b st where bst: "bst = (b, st)" by (cases bst)
  from assms bst have ok: "slice_ok st (observers b)" and nin: "x \<notin> set (slice_view st (observers b))"
    by (simp_all add: bus_ok_def bus_view_def)
  have "\<forall>j. 0 \<le> j \<and> j < s_len (observers b) \<longrightarrow> slice_view st (observers b) ! j \<noteq> x"
    using nin slice_view_length [OF ok] by (metis nth_mem)
  from Unregister_loop_absent [OF ok refl this] bst show ?thesis
    by (simp add: Unregister_def)
qed

lemma remove1_split:
  "x \<in> set xs \<Longrightarrow> \<exists>ys zs. xs = ys @ x # zs \<and> x \<notin> set ys \<and> remove1 x xs = ys @ zs"
  by (metis remove1_append remove1.simps(2) split_list_first)

lemma count_list_tagged:
  "count_list (map (\<lambda>x. (x, e)) xs) (y, e) = count_list xs y"
  by (induction xs) auto

lemma bus0_eq:
  "bus0 = (\<lparr>observers = \<lparr>s_ptr = 3, s_off = 0, s_len = 4, s_cap = 4\<rparr>\<rparr>, [[], [1], [1, 2], [1, 2, 1, 3]])"
  by (simp add: bus0_def Register_def NewEventBus_def go_make_def go_append_def rt_double_def
      slice_view_def write_at_def)

lemma bus0_ok: "bus_ok bus0" and bus0_view: "bus_view bus0 = [1, 2, 1, 3]"
  by (simp_all add: bus0_eq bus_ok_def bus_view_def slice_ok_def slice_view_def)

text \<open>
  C5. For every registration set and every subscriber \<open>s\<close>, \<^verbatim>\<open>Unregister(s)\<close> removes
  exactly the first entry identical to \<open>s\<close> and keeps all other entries in their order; if
  there is no such entry the bus (and the store) is unchanged; the operation has no failure
  outcome. \<^verbatim>\<open>Register\<close> appends without looking for duplicates, and one
  \<^verbatim>\<open>Unregister\<close> removes at most one copy.
\<close>

theorem C5_unregister_first_match:
  assumes "bus_ok bst"
  shows "bus_ok (Unregister rt s bst) \<and>
         bus_view (Unregister rt s bst) = remove1 s (bus_view bst) \<and>
         (s \<in> set (bus_view bst) \<longrightarrow>
            (\<exists>ys zs. bus_view bst = ys @ s # zs \<and> s \<notin> set ys \<and>
               bus_view (Unregister rt s bst) = ys @ zs)) \<and>
         (s \<notin> set (bus_view bst) \<longrightarrow> Unregister rt s bst = bst) \<and>
         length (bus_view bst) \<le> length (bus_view (Unregister rt s bst)) + 1 \<and>
         bus_ok (Register rt s bst) \<and> bus_view (Register rt s bst) = bus_view bst @ [s]"
proof -
  note u = Unregister_view [OF assms, of rt s]
  have "s \<in> set (bus_view bst) \<longrightarrow>
      (\<exists>ys zs. bus_view bst = ys @ s # zs \<and> s \<notin> set ys \<and> bus_view (Unregister rt s bst) = ys @ zs)"
    using u remove1_split [of s "bus_view bst"] by auto
  moreover have "s \<notin> set (bus_view bst) \<longrightarrow> Unregister rt s bst = bst"
    using Unregister_absent [OF assms] by blast
  moreover have "length (bus_view bst) \<le> length (bus_view (Unregister rt s bst)) + 1"
    using u by (cases "s \<in> set (bus_view bst)") (simp_all add: length_remove1 remove1_idem)
  ultimately show ?thesis using u Register_view [OF assms, of rt s] by blast
qed

theorem C5_unregister_first_match_witness:
  "bus_ok bus0 \<and> bus_view bus0 = [1, 2, 1, 3] \<and>
   bus_view (Unregister (rt_double 0) 1 bus0) = [2, 1, 3] \<and>
   Unregister (rt_double 0) 9 bus0 = bus0 \<and>
   bus_view (Register (rt_double 0) 1 bus0) = [1, 2, 1, 3, 1]"
  using C5_unregister_first_match [OF bus0_ok, of "rt_double 0" 1]
        C5_unregister_first_match [OF bus0_ok, of "rt_double 0" 9]
  by (simp add: bus0_ok bus0_view)

text \<open>
  C1. For every event and every registration set, \<^verbatim>\<open>Notify(event)\<close> calls
  \<^verbatim>\<open>OnEvent(event)\<close> once for each entry that is in the set when \<^verbatim>\<open>Notify\<close> begins, in
  registration order (so a subscriber is called as often as it is registered at that
  moment: once when the subscribers are distinct), whatever the callbacks register or
  unregister during the delivery: the calls are those of the snapshot.
\<close>

theorem C1_notify_snapshot:
  assumes "bus_ok bst"
  shows "snd (Notify rt OnEvent event (bst, w)) = map (\<lambda>x. (x, event)) (bus_view bst) \<and>
         count_list (snd (Notify rt OnEvent event (bst, w))) (x, event) = count_list (bus_view bst) x \<and>
         bus_ok (fst (fst (Notify rt OnEvent event (bst, w))))"
  using Notify_calls [OF assms, of rt OnEvent event w] by (simp add: count_list_tagged)

theorem C1_notify_snapshot_witness:
  "bus_ok bus0 \<and>
   snd (Notify (rt_double 0) handler0 ''ev'' (bus0, 0)) = [(1, ''ev''), (2, ''ev''), (1, ''ev''), (3, ''ev'')] \<and>
   bus_view (fst (fst (Notify (rt_double 0) handler0 ''ev'' (bus0, 0)))) = [2, 4, 4] \<and>
   count_list (snd (Notify (rt_double 0) handler0 ''ev'' (bus0, 0))) (1, ''ev'') = 2"
proof -
  have "bus_view (fst (fst (Notify (rt_double 0) handler0 ''ev'' (bus0, 0)))) = [2, 4, 4]"
    by (simp add: bus0_eq Notify_def go_make_def go_copy_def Notify_loop.simps handler0_def
        Register_def Unregister_def Unregister_loop.simps go_append_def rt_double_def
        slice_view_def write_at_def slice_to_def slice_from_def bus_view_def)
  with C1_notify_snapshot [OF bus0_ok, of "rt_double 0" handler0 "''ev''" 0 1]
  show ?thesis by (simp add: bus0_ok bus0_view)
qed

section \<open>The pipeline: the encoding stage and a failing storage\<close>

text \<open>
  The encoding stage never fails: \<^verbatim>\<open>selectEncoder\<close> returns one of the two encoders of
  package codec, and both return a nil error for every image. So the branch of
  \<^verbatim>\<open>CaptureAndProcess\<close> that wraps an error of the encoder as \<open>encode photo: ...\<close> is never
  taken, whatever the photo type, the filters, the format and the collaborators.
\<close>

lemma builtin_encoders_succeed:
  "snd (enc_Encode (selectEncoder format') img) = None"
  by (simp add: selectEncoder_def NewPNGEncoder_def NewJPEGEncoder_def PNGEncoder_Encode_def
      JPEGEncoder_Encode_def)

lemma encodePhoto_succeeds:
  "snd (encodePhoto img format') = None"
  by (simp add: encodePhoto_def builtin_encoders_succeed)

lemma CaptureAndProcess_no_encode_error:
  "fst (CaptureAndProcess F e photoType filters format' w) \<noteq>
     Inr (r, Some (ErrWrap ''encode photo: '' err q))"
proof -
  obtain photo w1 where c: "createPhoto F e photoType w = (photo, w1)" by fastforce
  show ?thesis
  proof (cases "applyFilters photo filters")
    case (Inl p)
    with c show ?thesis by (simp add: CaptureAndProcess_def)
  next
    case (Inr processed)
    obtain encoded where en: "encodePhoto processed format' = (encoded, None)"
      using encodePhoto_succeeds [of processed format']
      by (cases "encodePhoto processed format'") simp
    obtain x s' where sv: "st_Save (storage F) (Image_ID processed) encoded (w_store w1) = (x, s')"
      by fastforce
    show ?thesis using c Inr en sv
      by (cases x) (simp_all add: CaptureAndProcess_def)
  qed
qed

text \<open>
  C3 (as amended). If \<^verbatim>\<open>Save\<close> of the storage collaborator always returns an error, then
  for every photo type, every list of non-empty filter names and every format,
  \<^verbatim>\<open>CaptureAndProcess\<close> returns nil bytes and the error of \<^verbatim>\<open>Save\<close> wrapped as
  \<open>save photo: ...\<close>; the only event published during the call is the "created" event
  (\<open>ImageCaptured\<close>) for the new photo, so no "processed" event is published.
\<close>

theorem C3_storage_failure:
  assumes "[] \<notin> set filters"
    and "\<forall>id' d s. fst (st_Save (storage F) id' d s) \<noteq> None"
  shows "\<exists>processed err s'.
           applyFilters (CreatePhoto e photoType) filters = Inr processed \<and>
           st_Save (storage F) (Image_ID processed)
             (fst (enc_Encode (selectEncoder format') processed)) (w_store w) = (Some err, s') \<and>
           CaptureAndProcess F e photoType filters format' w =
             (Inr (None, Some (ErrWrap ''save photo: '' err [])),
              (publish F (NewEvent EventImageCaptured (Some (CreatePhoto e photoType)) ''Photo created'') w)
                \<lparr>w_store := s'\<rparr>) \<and>
           w_published (snd (CaptureAndProcess F e photoType filters format' w)) =
             w_published w @ [NewEvent EventImageCaptured (Some (CreatePhoto e photoType)) ''Photo created''] \<and>
           ev_Type (NewEvent EventImageCaptured (Some (CreatePhoto e photoType)) ''Photo created'')
             \<noteq> EventImageProcessed"
proof -
  let ?photo = "CreatePhoto e photoType"
  let ?created = "NewEvent EventImageCaptured (Some ?photo) ''Photo created''"
  from applyFilters_ok [OF assms(1), of ?photo]
  obtain processed where p: "applyFilters ?photo filters = Inr processed" by blast
  obtain encoded where en: "enc_Encode (selectEncoder format') processed = (encoded, None)"
    using builtin_encoders_succeed [of format' processed]
    by (cases "enc_Encode (selectEncoder format') processed") simp
  obtain r s' where sv: "st_Save (storage F) (Image_ID processed) encoded (w_store w) = (r, s')"
    by fastforce
  with assms(2) obtain err where r: "r = Some err"
    by (metis fst_conv not_Some_eq)
  have "CaptureAndProcess F e photoType filters format' w =
      (Inr (None, Some (ErrWrap ''save photo: '' err [])), (publish F ?created w)\<lparr>w_store := s'\<rparr>)"
    using p en sv r
    by (simp add: Let_def CaptureAndProcess_def createPhoto_def encodePhoto_def
        publish_def)
  moreover have "ev_Type ?created \<noteq> EventImageProcessed"
    by (simp add: NewEvent_def EventImageCaptured_def EventImageProcessed_def)
  ultimately show ?thesis using p en sv r
    by (simp add: publish_def)
qed

text \<open>
  The claim as stated, for every filter list, fails where a filter name is empty: the call
  panics in \<^verbatim>\<open>applyFilters\<close> (after the "created" event) and returns nothing.
\<close>

theorem C3_counterexample:
  "fst (CaptureAndProcess failing_facade env0 ''portrait'' [''grayscale'', []] ''png'' (world0 ())) =
     Inl ''filter cannot be empty''"
  by (simp add: CaptureAndProcess_def createPhoto_def Let_def
      NewFilterDecorator_def split_def)

theorem C3_storage_failure_witness:
  "[] \<notin> set [''grayscale'', ''sepia''] \<and>
   (\<forall>id' d s. fst (st_Save (storage failing_facade) id' d s) \<noteq> None) \<and>
   fst (CaptureAndProcess failing_facade env0 ''portrait'' [''grayscale'', ''sepia''] ''png'' (world0 ())) =
     Inr (None, Some (ErrWrap ''save photo: '' (Err ''disk full'') [])) \<and>
   w_published (snd (CaptureAndProcess failing_facade env0 ''portrait'' [''grayscale'', ''sepia''] ''png''
      (world0 ()))) =
     [NewEvent EventImageCaptured (Some (CreatePhoto env0 ''portrait'')) ''Photo created'']"
proof -
  have a: "[] \<notin> set [''grayscale'', ''sepia'']" by simp
  have b: "\<forall>id' d s. fst (st_Save (storage failing_facade) id' d s) \<noteq> None"
    by (simp add: failing_facade_def FailingStorage_def)
  from C3_storage_failure [OF a b, where e = env0 and photoType = "''portrait''" and format' = "''png''" and w = "world0 ()"] a b
  show ?thesis
    by (auto simp: failing_facade_def FailingStorage_def world0_def)
qed
section \<open>Sorting the gallery\<close>

lemma rated_less [simp]:
  "SortByRating_less asc (rated i r) (rated j q) = (if asc then r < q else r > q)"
  by (simp add: SortByRating_less_def rated_def NewBasicImage_def zero_metadata_def)

lemma taken_less [simp]:
  "SortByDate_less asc (taken i r) (taken j q) = (if asc then r < q else r > q)"
  by (simp add: SortByDate_less_def taken_def NewBasicImage_def zero_metadata_def)























end
